theory Spec2Isabelle
  imports Main "HOL-Library.Word"
begin

unbundle bit_operations_syntax

section \<open>Target architecture and frame constants (compile.cpp, lines 19-24)\<close>

text \<open>
  The source is compiled either for 32-bit x86 or for x86-64; the choice fixes
  \<open>BytesPerWord\<close> (declared in common.h as \<open>sizeof(uintptr_t)\<close>) and the
  preprocessor symbol \<open>__x86_64__\<close>.
\<close>

datatype arch = X86_32 | X86_64

text \<open>Modelled from the spec: \<open>BytesPerWord\<close> is declared in common.h, which is
  not part of the sources; the specification fixes the word size to 4 or 8 bytes.\<close>

fun BytesPerWord :: "arch \<Rightarrow> nat" where
  "BytesPerWord X86_32 = 4"
| "BytesPerWord X86_64 = 8"

definition FrameThread :: "arch \<Rightarrow> nat" where
  "FrameThread a = BytesPerWord a * 2"

definition FrameMethod :: "arch \<Rightarrow> nat" where
  "FrameMethod a = FrameThread a + BytesPerWord a"

text \<open>
  The source line is \<open>const unsigned FrameNext = FrameNext + BytesPerWord;\<close>.
  The initialiser reads the object being initialised.  A namespace-scope object
  has static storage duration, so it is zero-initialised before its dynamic
  initialiser runs; the value read on the right-hand side is that zero.
\<close>

definition FrameNext_zero_initialized :: nat where
  "FrameNext_zero_initialized = 0"

definition FrameNext :: "arch \<Rightarrow> nat" where
  "FrameNext a = FrameNext_zero_initialized + BytesPerWord a"

definition FrameFootprint :: "arch \<Rightarrow> nat" where
  "FrameFootprint a = BytesPerWord a * 3"

section \<open>Objects, threads and raw memory\<close>

text \<open>
  An \<open>object\<close> is a reference into the managed heap; \<open>0\<close> is the null reference.
  Raw pointers (\<open>void*\<close>) are byte addresses.  The native stack and the heap are
  read one machine word at a time: \<open>mem p\<close> is the word stored at byte address \<open>p\<close>.
\<close>

type_synonym object = nat
type_synonym address = int
type_synonym memory = "address \<Rightarrow> int"

text \<open>\<open>static_cast<void**>(p)[i]\<close>: the \<open>i\<close>-th word after \<open>p\<close>.  An address is a
  machine word, so the sum is taken modulo \<open>2^32\<close> or \<open>2^64\<close>; the index is the
  value the source computes, an \<open>unsigned\<close> one being extended with zeros.\<close>

definition word_index :: "arch \<Rightarrow> memory \<Rightarrow> address \<Rightarrow> int \<Rightarrow> int" where
  "word_index a mem p i =
     mem ((p + i * int (BytesPerWord a)) mod 2 ^ (8 * BytesPerWord a))"

text \<open>The fields \<open>MyThread\<close> adds to \<open>Thread\<close>, and \<open>Thread::exception\<close>.
  \<open>reference\<close> is the head of the thread's chain of local references, given as
  the chain itself (head first); the null pointer is the empty chain.\<close>

record MyThread =
  exception :: object
  frame :: address
  reference :: "address list"

definition frameValid :: "address \<Rightarrow> bool" where
  "frameValid fr = (fr \<noteq> 0)"

text \<open>The index \<open>- (FrameFootprint / BytesPerWord) - 1\<close> is computed on
  \<open>unsigned\<close>, the type of \<open>FrameFootprint\<close> (and of \<open>BytesPerWord\<close> in
  common.h): it is the 32-bit value \<open>0xFFFFFFFC\<close>.  With 32-bit addresses the
  sum wraps around to four words below the frame; with 64-bit addresses it
  does not.\<close>

definition frameBase :: "arch \<Rightarrow> memory \<Rightarrow> address \<Rightarrow> address" where
  "frameBase a mem fr =
     word_index a mem fr
       (uint (- of_nat (FrameFootprint a div BytesPerWord a) - 1 :: 32 word))"

definition frameNext :: "arch \<Rightarrow> memory \<Rightarrow> address \<Rightarrow> address" where
  "frameNext a mem fr =
     word_index a mem (frameBase a mem fr) (int (FrameNext a div BytesPerWord a))"

definition frameMethod :: "arch \<Rightarrow> memory \<Rightarrow> address \<Rightarrow> object" where
  "frameMethod a mem fr =
     nat (word_index a mem (frameBase a mem fr) (int (FrameMethod a div BytesPerWord a)))"

definition frameAddress :: "arch \<Rightarrow> memory \<Rightarrow> address \<Rightarrow> address" where
  "frameAddress a mem fr =
     word_index a mem fr (uint (- of_nat (FrameFootprint a div BytesPerWord a) :: 32 word))"

definition frameReturnAddress :: "arch \<Rightarrow> memory \<Rightarrow> address \<Rightarrow> address" where
  "frameReturnAddress a mem fr = word_index a mem (frameBase a mem fr) 1"

section \<open>Compiled code and its exception-handler table\<close>

text \<open>One entry of the native handler table: four \<open>uint32_t\<close> fields, written by
  \<open>buildExceptionHandlerTable\<close> with four \<open>append4\<close> calls.\<close>

record NativeExceptionHandler =
  nativeExceptionHandlerStart :: "32 word"
  nativeExceptionHandlerEnd :: "32 word"
  nativeExceptionHandlerIp :: "32 word"
  nativeExceptionHandlerCatchType :: "32 word"

text \<open>A \<open>Code\<close> object: the address of its body and its handler table.\<close>

record Code =
  code_body :: address
  exceptionHandlerTable :: "NativeExceptionHandler list"

text \<open>The accessors of machine.h the unwinder uses, as the environment it runs in.\<close>

record Machine =
  memory_of :: memory
  methodCompiled :: "object \<Rightarrow> Code"
  methodCode :: "object \<Rightarrow> nat \<Rightarrow> object"
  methodFlags :: "object \<Rightarrow> 32 word"
  ACC_NATIVE :: "32 word"
  instanceOf :: "object \<Rightarrow> object \<Rightarrow> bool"

definition addressOffset :: "Machine \<Rightarrow> object \<Rightarrow> address \<Rightarrow> 32 word" where
  "addressOffset m method addr = word_of_int (addr - code_body (methodCompiled m method))"

text \<open>The body of the \<open>for\<close> loop of \<open>findExceptionHandler\<close> at index \<open>i\<close>:
  does entry \<open>i\<close> make the function return?\<close>

definition handler_matches ::
  "arch \<Rightarrow> Machine \<Rightarrow> MyThread \<Rightarrow> address \<Rightarrow> NativeExceptionHandler \<Rightarrow> bool" where
  "handler_matches a m t fr handler =
     (let method = frameMethod a (memory_of m) fr;
          offset = addressOffset m method (frameAddress a (memory_of m) fr)
      in if offset - 1 \<ge> nativeExceptionHandlerStart handler
            \<and> offset - 1 < nativeExceptionHandlerEnd handler
         then
           (let catchType =
                  (if nativeExceptionHandlerCatchType handler \<noteq> 0
                   then methodCode m method
                          (unat (nativeExceptionHandlerCatchType handler - 1))
                   else 0)
            in catchType = 0 \<or> instanceOf m catchType (exception t))
         else False)"

function findExceptionHandler_from ::
  "arch \<Rightarrow> Machine \<Rightarrow> MyThread \<Rightarrow> address \<Rightarrow> nat \<Rightarrow> NativeExceptionHandler option" where
  "findExceptionHandler_from a m t fr i =
     (let code = methodCompiled m (frameMethod a (memory_of m) fr)
      in if i < length (exceptionHandlerTable code)
         then (let handler = exceptionHandlerTable code ! i
               in if handler_matches a m t fr handler then Some handler
                  else findExceptionHandler_from a m t fr (i + 1))
         else None)"
  by pat_completeness auto
termination
  by (relation "measure (\<lambda>(a, m, t, fr, i).
        length (exceptionHandlerTable (methodCompiled m (frameMethod a (memory_of m) fr))) - i)")
     auto

declare findExceptionHandler_from.simps [simp del]

definition findExceptionHandler ::
  "arch \<Rightarrow> Machine \<Rightarrow> MyThread \<Rightarrow> address \<Rightarrow> NativeExceptionHandler option" where
  "findExceptionHandler a m t fr = findExceptionHandler_from a m t fr 0"

section \<open>Unwinding and the throwing helpers\<close>

text \<open>\<open>unwind\<close> never returns to its caller: it either transfers control with
  \<open>vmJump\<close> (to the given address, with the thread as it is then) or aborts.\<close>

datatype transfer = VmJump MyThread address | Aborted MyThread

partial_function (option) unwind_from ::
  "arch \<Rightarrow> Machine \<Rightarrow> MyThread \<Rightarrow> address \<Rightarrow> transfer option" where
  "unwind_from a m t fr =
     (if frameValid fr then
        (if \<not> frameValid (frameNext a (memory_of m) fr)
            \<or> methodFlags m (frameMethod a (memory_of m) (frameNext a (memory_of m) fr))
                 AND ACC_NATIVE m \<noteq> 0
         then Some (VmJump (t\<lparr>frame := frameNext a (memory_of m) fr\<rparr>)
                      (frameReturnAddress a (memory_of m) fr))
         else if methodFlags m (frameMethod a (memory_of m) fr) AND ACC_NATIVE m = 0
         then (case findExceptionHandler a m t fr of
                 Some eh \<Rightarrow>
                   Some (VmJump (t\<lparr>frame := fr\<rparr>)
                      (code_body (methodCompiled m (frameMethod a (memory_of m) fr))
                         + uint (nativeExceptionHandlerIp eh)))
               | None \<Rightarrow> unwind_from a m t (frameNext a (memory_of m) fr))
         else unwind_from a m t (frameNext a (memory_of m) fr))
      else Some (Aborted t))"

definition unwind :: "arch \<Rightarrow> Machine \<Rightarrow> MyThread \<Rightarrow> transfer option" where
  "unwind a m t = unwind_from a m t (frame t)"

text \<open>\<open>makeNew\<close> and \<open>makeNullPointerException\<close> allocate in the managed heap,
  which lies outside the sources; the object each returns is a parameter.\<close>

definition throwNew ::
  "arch \<Rightarrow> Machine \<Rightarrow> (object \<Rightarrow> object) \<Rightarrow> MyThread \<Rightarrow> object \<Rightarrow> MyThread \<times> transfer option" where
  "throwNew a m makeNew t cls =
     (let t' = t\<lparr>exception := makeNew cls\<rparr> in (t', unwind a m t'))"

text \<open>The source function \<open>throw_\<close>.\<close>

definition throw' ::
  "arch \<Rightarrow> Machine \<Rightarrow> object \<Rightarrow> MyThread \<Rightarrow> object \<Rightarrow> MyThread \<times> transfer option" where
  "throw' a m makeNullPointerException t o' =
     (let t' = (if o' \<noteq> 0 then t\<lparr>exception := makeNullPointerException\<rparr>
                else t\<lparr>exception := o'\<rparr>)
      in (t', unwind a m t'))"

section \<open>Buffer (compile.cpp, lines 28-122)\<close>

datatype vm_error = AssertionFailed | Abort | OutsideBlock | PendingException | NullDereference

text \<open>
  \<open>unsigned\<close> fields are 32-bit words.  \<open>data\<close> is the block the pointer refers
  to, \<open>None\<close> for the null pointer.  \<open>s\<close> stands for the \<open>System\<close> allocator:
  \<open>s i\<close> is the (unspecified) byte found at offset \<open>i\<close> of freshly allocated
  memory.
\<close>

record Buffer =
  s :: "nat \<Rightarrow> 8 word"
  data :: "8 word list option"
  position :: "32 word"
  capacity :: "32 word"
  minimumCapacity :: "32 word"

definition Buffer_new :: "(nat \<Rightarrow> 8 word) \<Rightarrow> 32 word \<Rightarrow> Buffer" where
  "Buffer_new sys minCap =
     \<lparr>s = sys, data = None, position = 0, capacity = 0, minimumCapacity = minCap\<rparr>"

definition allocate :: "(nat \<Rightarrow> 8 word) \<Rightarrow> nat \<Rightarrow> 8 word list" where
  "allocate sys n = map sys [0..<n]"

text \<open>\<open>memcpy(dst + off, src, length src)\<close> into the block \<open>dst\<close>; the block keeps
  its size, bytes that would fall outside it are not recorded.\<close>

definition memcpy :: "8 word list \<Rightarrow> nat \<Rightarrow> 8 word list \<Rightarrow> 8 word list" where
  "memcpy dst off src =
     take (length dst) (take off dst @ src @ drop (off + length src) dst)"

definition ensure :: "Buffer \<Rightarrow> 32 word \<Rightarrow> Buffer" where
  "ensure b space =
     (if position b + space > capacity b then
        (let newCapacity =
               max (position b + space) (max (minimumCapacity b) (capacity b * 2));
             newData = allocate (s b) (unat newCapacity)
         in case data b of
              Some d \<Rightarrow> b\<lparr>data := Some (memcpy newData 0 (take (unat (position b)) d))\<rparr>
            | None \<Rightarrow> b\<lparr>data := Some newData\<rparr>)
      else b)"

text \<open>Store \<open>bytes\<close> at the current position and advance (the tail of each
  \<open>append\<close> function).\<close>

definition store_advance :: "Buffer \<Rightarrow> 8 word list \<Rightarrow> Buffer" where
  "store_advance b bytes =
     b\<lparr>data := map_option (\<lambda>d. memcpy d (unat (position b)) bytes) (data b),
       position := position b + of_nat (length bytes)\<rparr>"

text \<open>The bytes of a value in memory order (x86 is little-endian).\<close>

definition bytes2 :: "16 word \<Rightarrow> 8 word list" where
  "bytes2 v = [ucast v, ucast (drop_bit 8 v)]"

definition bytes4 :: "32 word \<Rightarrow> 8 word list" where
  "bytes4 v = [ucast v, ucast (drop_bit 8 v), ucast (drop_bit 16 v), ucast (drop_bit 24 v)]"

definition word2 :: "8 word list \<Rightarrow> 16 word" where
  "word2 bs = ucast (bs ! 0) OR push_bit 8 (ucast (bs ! 1))"

definition word4 :: "8 word list \<Rightarrow> 32 word" where
  "word4 bs = ucast (bs ! 0) OR push_bit 8 (ucast (bs ! 1))
                OR push_bit 16 (ucast (bs ! 2)) OR push_bit 24 (ucast (bs ! 3))"

definition append :: "Buffer \<Rightarrow> 8 word \<Rightarrow> Buffer" where
  "append b v = store_advance (ensure b 1) [v]"

definition append2 :: "Buffer \<Rightarrow> 16 word \<Rightarrow> Buffer" where
  "append2 b v = store_advance (ensure b 2) (bytes2 v)"

definition append4 :: "Buffer \<Rightarrow> 32 word \<Rightarrow> Buffer" where
  "append4 b v = store_advance (ensure b 4) (bytes4 v)"

text \<open>Read \<open>n\<close> bytes at \<open>offset\<close> after the assertion \<open>offset + n <= position\<close>
  (evaluated on \<open>unsigned\<close>, as in the source).\<close>

definition read_bytes :: "Buffer \<Rightarrow> 32 word \<Rightarrow> nat \<Rightarrow> vm_error + 8 word list" where
  "read_bytes b offset n =
     (if offset + of_nat n \<le> position b then
        (case data b of
           None \<Rightarrow> Inl OutsideBlock
         | Some d \<Rightarrow> if unat offset + n \<le> length d
                     then Inr (take n (drop (unat offset) d)) else Inl OutsideBlock)
      else Inl AssertionFailed)"

definition get2 :: "Buffer \<Rightarrow> 32 word \<Rightarrow> vm_error + 16 word" where
  "get2 b offset = map_sum id word2 (read_bytes b offset 2)"

definition get4 :: "Buffer \<Rightarrow> 32 word \<Rightarrow> vm_error + 32 word" where
  "get4 b offset = map_sum id word4 (read_bytes b offset 4)"

definition set4 :: "Buffer \<Rightarrow> 32 word \<Rightarrow> 32 word \<Rightarrow> vm_error + Buffer" where
  "set4 b offset v =
     (if offset + 4 \<le> position b
      then Inr (b\<lparr>data := map_option (\<lambda>d. memcpy d (unat offset) (bytes4 v)) (data b)\<rparr>)
      else Inl AssertionFailed)"

text \<open>\<open>appendAddress\<close>: the second \<open>append4\<close> exists only under \<open>__x86_64__\<close>.\<close>

definition appendAddress :: "arch \<Rightarrow> Buffer \<Rightarrow> 64 word \<Rightarrow> Buffer" where
  "appendAddress a b v =
     (let b1 = append4 b (ucast v)
      in if BytesPerWord a = 8 then append4 b1 (ucast (drop_bit 32 v)) else b1)"

definition length_buf :: "Buffer \<Rightarrow> 32 word" where
  "length_buf b = position b"

text \<open>\<open>copyTo\<close>: the bytes it stores at the destination (none for a null \<open>data\<close>).\<close>

definition copyTo :: "Buffer \<Rightarrow> 8 word list" where
  "copyTo b = (case data b of Some d \<Rightarrow> take (unat (position b)) d | None \<Rightarrow> [])"

text \<open>How the position moves; used by the termination arguments below.\<close>

lemma position_ensure: "position (ensure b space) = position b"
  by (simp add: ensure_def Let_def split: option.split)

lemma position_append: "position (append b v) = position b + 1"
  by (simp add: append_def store_advance_def position_ensure)

section \<open>Assembler (compile.cpp, lines 443-902)\<close>

definition isByte :: "32 word \<Rightarrow> bool" where
  "isByte v = (v = scast (ucast v :: 8 word))"

datatype Register =
  rax | rcx | rdx | rbx | rsp | rbp | rsi | rdi
  | r8 | r9 | r10 | r11 | r12 | r13 | r14 | r15

fun reg :: "Register \<Rightarrow> 32 word" where
  "reg rax = 0" | "reg rcx = 1" | "reg rdx = 2" | "reg rbx = 3"
| "reg rsp = 4" | "reg rbp = 5" | "reg rsi = 6" | "reg rdi = 7"
| "reg r8 = 8" | "reg r9 = 9" | "reg r10 = 10" | "reg r11 = 11"
| "reg r12 = 12" | "reg r13 = 13" | "reg r14 = 14" | "reg r15 = 15"

record Assembler =
  code :: Buffer
  jumps :: Buffer

definition Assembler_new :: "(nat \<Rightarrow> 8 word) \<Rightarrow> Assembler" where
  "Assembler_new sys = \<lparr>code = Buffer_new sys 1024, jumps = Buffer_new sys 32\<rparr>"

text \<open>\<open>code.append(v)\<close>: the argument is computed on \<open>int\<close>/\<open>unsigned\<close> and
  converted to \<open>uint8_t\<close> by the call.\<close>

definition code_append :: "32 word \<Rightarrow> 'x Assembler_scheme \<Rightarrow> 'x Assembler_scheme" where
  "code_append v r = r\<lparr>code := append (code r) (ucast v)\<rparr>"

definition rex :: "arch \<Rightarrow> 'x Assembler_scheme \<Rightarrow> 'x Assembler_scheme" where
  "rex a r = (if BytesPerWord a = 8 then code_append 0x48 r else r)"

text \<open>\<open>mov(Register src, Register dst)\<close>\<close>

definition mov_reg_reg ::
  "arch \<Rightarrow> Register \<Rightarrow> Register \<Rightarrow> 'x Assembler_scheme \<Rightarrow> 'x Assembler_scheme" where
  "mov_reg_reg a src dst r =
     code_append (0xc0 OR push_bit 3 (reg src) OR reg dst) (code_append 0x89 (rex a r))"

definition offsetInstruction ::
  "32 word \<Rightarrow> 32 word \<Rightarrow> 32 word \<Rightarrow> 32 word \<Rightarrow> 32 word \<Rightarrow> 32 word \<Rightarrow> 32 word
     \<Rightarrow> 'x Assembler_scheme \<Rightarrow> 'x Assembler_scheme" where
  "offsetInstruction instruction zeroPrefix bytePrefix wordPrefix ra rb offset r =
     (let r1 = code_append instruction r;
          prefix = (if offset = 0 \<and> rb \<noteq> reg rbp then zeroPrefix
                    else if isByte offset then bytePrefix
                    else wordPrefix);
          r2 = code_append (prefix OR push_bit 3 ra OR rb) r1;
          r3 = (if rb = reg rsp then code_append 0x24 r2 else r2)
      in if offset = 0 \<and> rb \<noteq> reg rbp then r3
         else if isByte offset then code_append offset r3
         else r3\<lparr>code := append4 (code r3) offset\<rparr>)"

text \<open>\<open>mov4(Register src, int32_t srcOffset, Register dst)\<close>\<close>

definition mov4_mem_reg ::
  "Register \<Rightarrow> 32 word \<Rightarrow> Register \<Rightarrow> 'x Assembler_scheme \<Rightarrow> 'x Assembler_scheme" where
  "mov4_mem_reg src srcOffset dst r =
     offsetInstruction 0x8b 0 0x40 0x80 (reg dst) (reg src) srcOffset r"

text \<open>\<open>mov(Register src, int32_t srcOffset, Register dst)\<close>\<close>

definition mov_mem_reg ::
  "arch \<Rightarrow> Register \<Rightarrow> 32 word \<Rightarrow> Register \<Rightarrow> 'x Assembler_scheme \<Rightarrow> 'x Assembler_scheme" where
  "mov_mem_reg a src srcOffset dst r = mov4_mem_reg src srcOffset dst (rex a r)"

text \<open>\<open>mov(uintptr_t v, Register dst)\<close>\<close>

definition mov_imm_reg ::
  "arch \<Rightarrow> 64 word \<Rightarrow> Register \<Rightarrow> 'x Assembler_scheme \<Rightarrow> 'x Assembler_scheme" where
  "mov_imm_reg a v dst r =
     (let r1 = code_append (0xb8 OR reg dst) (rex a r)
      in r1\<lparr>code := appendAddress a (code r1) v\<rparr>)"

definition nop :: "'x Assembler_scheme \<Rightarrow> 'x Assembler_scheme" where
  "nop r = code_append 0x90 r"

text \<open>The padding loop of \<open>alignedMov\<close>:
  \<open>while ((code.length() + (BytesPerWord == 8 ? 2 : 1)) % BytesPerWord) nop();\<close>\<close>

definition misaligned :: "arch \<Rightarrow> 'x Assembler_scheme \<Rightarrow> bool" where
  "misaligned a r =
     ((length_buf (code r) + (if BytesPerWord a = 8 then 2 else 1))
        mod of_nat (BytesPerWord a) \<noteq> 0)"

text \<open>The loop pads with at most one word of \<open>nop\<close>s; its measure is the
  distance to the next aligned position.\<close>

lemma unat_succ_mod: 
  assumes "w dvd (2::nat) ^ 32"
  shows "unat (x + 1 :: 32 word) mod w = (unat x + 1) mod w"
proof -
  have "unat (x + 1) = (unat x + 1) mod 2 ^ 32"
    by (simp add: unat_word_ariths)
  then show ?thesis
    using assms by (simp only: mod_mod_cancel)
qed

lemma pad_measure_step:
  fixes u u' w :: nat
  assumes "u' mod w = (u + 1) mod w" "u mod w \<noteq> 0" "0 < w"
  shows "(w - u' mod w) mod w < (w - u mod w) mod w"
proof -
  have lt: "u mod w < w" using assms(3) by simp
  have r: "(w - u mod w) mod w = w - u mod w"
    using assms(2) lt by simp
  show ?thesis
  proof (cases "Suc (u mod w) = w")
    case True
    then have "(u + 1) mod w = 0"
      by (metis Suc_eq_plus1 mod_Suc)
    then show ?thesis using assms r lt by simp
  next
    case False
    then have "(u + 1) mod w = u mod w + 1"
      by (simp add: mod_Suc)
    then show ?thesis using assms r lt False by simp
  qed
qed


definition pad_measure :: "arch \<Rightarrow> 'x Assembler_scheme \<Rightarrow> nat" where
  "pad_measure a r =
     (BytesPerWord a
        - unat (length_buf (code r) + (if BytesPerWord a = 8 then 2 else 1)) mod BytesPerWord a)
       mod BytesPerWord a"

lemma BytesPerWord_dvd: "BytesPerWord a dvd 2 ^ 32"
  by (cases a) simp_all

lemma BytesPerWord_pos: "0 < BytesPerWord a"
  by (cases a) simp_all

lemma misaligned_unat:
  "misaligned a r =
     (unat (length_buf (code r) + (if BytesPerWord a = 8 then 2 else 1)) mod BytesPerWord a \<noteq> 0)"
  by (cases a) (simp_all add: misaligned_def word_eq_iff_unsigned [where ?'a = nat] unat_mod)

lemma misaligned_nop_decreases:
  assumes "misaligned a r"
  shows "pad_measure a (nop r) < pad_measure a r"
proof -
  define k :: "32 word" where "k = (if BytesPerWord a = 8 then 2 else 1)"
  define p where "p = position (code r)"
  have "length_buf (code (nop r)) + k = (p + k) + 1"
    by (simp add: nop_def code_append_def length_buf_def position_append p_def)
  then have "unat (length_buf (code (nop r)) + k) mod BytesPerWord a
               = (unat (p + k) + 1) mod BytesPerWord a"
    by (simp only: unat_succ_mod [OF BytesPerWord_dvd])
  moreover have "unat (p + k) mod BytesPerWord a \<noteq> 0"
    using assms by (simp add: misaligned_unat k_def p_def length_buf_def)
  ultimately show ?thesis
    unfolding pad_measure_def k_def [symmetric]
    using pad_measure_step [OF _ _ BytesPerWord_pos]
    by (simp add: length_buf_def p_def)
qed

function alignedMov_pad :: "arch \<Rightarrow> 'x Assembler_scheme \<Rightarrow> 'x Assembler_scheme" where
  "alignedMov_pad a r = (if misaligned a r then alignedMov_pad a (nop r) else r)"
  by pat_completeness auto
termination
  by (relation "measure (\<lambda>(a, r). pad_measure a r)")
     (simp_all add: misaligned_nop_decreases)

declare alignedMov_pad.simps [simp del]

text \<open>\<open>alignedMov\<close>: the padding loop, then the same three steps as
  \<open>mov(uintptr_t, Register)\<close>.\<close>

definition alignedMov ::
  "arch \<Rightarrow> 64 word \<Rightarrow> Register \<Rightarrow> 'x Assembler_scheme \<Rightarrow> 'x Assembler_scheme" where
  "alignedMov a v dst r =
     (let r1 = code_append (0xb8 OR reg dst) (rex a (alignedMov_pad a r))
      in r1\<lparr>code := appendAddress a (code r1) v\<rparr>)"

text \<open>\<open>push(Register)\<close>, \<open>push(int32_t)\<close>, \<open>pop(Register)\<close>,
  \<open>add(Register, Register)\<close>, \<open>ret\<close>, \<open>call(Register)\<close>\<close>

definition push_reg :: "Register \<Rightarrow> 'x Assembler_scheme \<Rightarrow> 'x Assembler_scheme" where
  "push_reg rg r = code_append (0x50 OR reg rg) r"

definition push_imm :: "32 word \<Rightarrow> 'x Assembler_scheme \<Rightarrow> 'x Assembler_scheme" where
  "push_imm v r =
     (if isByte v then code_append v (code_append 0x6a r)
      else (let r1 = code_append 0x68 r in r1\<lparr>code := append4 (code r1) v\<rparr>))"

definition pop_reg :: "Register \<Rightarrow> 'x Assembler_scheme \<Rightarrow> 'x Assembler_scheme" where
  "pop_reg dst r = code_append (0x58 OR reg dst) r"

definition add_reg_reg ::
  "arch \<Rightarrow> Register \<Rightarrow> Register \<Rightarrow> 'x Assembler_scheme \<Rightarrow> 'x Assembler_scheme" where
  "add_reg_reg a src dst r =
     code_append (0xc0 OR push_bit 3 (reg src) OR reg dst) (code_append 0x01 (rex a r))"

definition ret :: "'x Assembler_scheme \<Rightarrow> 'x Assembler_scheme" where
  "ret r = code_append 0xc3 r"

text \<open>\<open>sub(int32_t v, Register dst)\<close> (lines 744-751): it asserts that \<open>v\<close> fits a
  byte.\<close>

definition sub_imm_reg ::
  "arch \<Rightarrow> 32 word \<Rightarrow> Register \<Rightarrow> 'x Assembler_scheme \<Rightarrow> vm_error + 'x Assembler_scheme" where
  "sub_imm_reg a v dst r =
     (if isByte v
      then Inr (code_append v (code_append (0xe8 OR reg dst) (code_append 0x83 (rex a r))))
      else Inl AssertionFailed)"

definition call_reg :: "Register \<Rightarrow> 'x Assembler_scheme \<Rightarrow> 'x Assembler_scheme" where
  "call_reg rg r = code_append (0xd0 OR reg rg) (code_append 0xff r)"

section \<open>Compiler (compile.cpp, lines 950-2222)\<close>

record Compiler = Assembler +
  poolRegisterClobbered :: bool
  javaIPs :: Buffer
  machineIPs :: Buffer
  lineNumbers :: Buffer
  exceptionHandlers :: Buffer
  pool :: Buffer

definition Compiler_new :: "(nat \<Rightarrow> 8 word) \<Rightarrow> Compiler" where
  "Compiler_new sys =
     \<lparr>code = Buffer_new sys 1024, jumps = Buffer_new sys 32,
      poolRegisterClobbered = True,
      javaIPs = Buffer_new sys 1024, machineIPs = Buffer_new sys 1024,
      lineNumbers = Buffer_new sys 256, exceptionHandlers = Buffer_new sys 256,
      pool = Buffer_new sys 256\<rparr>"

text \<open>\<open>poolReference\<close>.  \<open>MethodCode\<close>, the offset of the code field in a method
  object, is declared outside the sources and is a parameter.  The result is the
  returned offset and the compiler afterwards.\<close>

definition poolReference ::
  "arch \<Rightarrow> 32 word \<Rightarrow> object \<Rightarrow> Compiler \<Rightarrow> 32 word \<times> Compiler" where
  "poolReference a MethodCode ob c =
     (let c1 = (if poolRegisterClobbered c
                then (mov_mem_reg a rdi MethodCode rdi
                        (mov_mem_reg a rbp (of_nat (FrameMethod a)) rdi c))
                       \<lparr>poolRegisterClobbered := False\<rparr>
                else c);
          c2 = c1\<lparr>pool := appendAddress a (pool c1) (of_nat ob)\<rparr>
      in (length_buf (pool c2) + of_nat (BytesPerWord a), c2))"

definition callAddress :: "arch \<Rightarrow> 64 word \<Rightarrow> Compiler \<Rightarrow> Compiler" where
  "callAddress a function c =
     (call_reg rax (mov_imm_reg a function rax c))\<lparr>poolRegisterClobbered := True\<rparr>"

definition callAlignedAddress :: "arch \<Rightarrow> 64 word \<Rightarrow> Compiler \<Rightarrow> Compiler" where
  "callAlignedAddress a function c =
     (call_reg rax (alignedMov a function rax c))\<lparr>poolRegisterClobbered := True\<rparr>"

text \<open>\<open>machineIpForJavaIp\<close>: the binary search.  The locals \<open>bottom\<close>, \<open>top\<close>,
  \<open>span\<close> and \<open>middle\<close> are natural numbers: \<open>bottom \<le> middle < top\<close> holds in
  every iteration and \<open>top\<close> starts at half a 32-bit length, so none of the
  operations on them wraps.  The function ends in \<open>abort\<close> when the loop ends.\<close>

function machineIpForJavaIp_loop ::
  "Compiler \<Rightarrow> 16 word \<Rightarrow> nat \<Rightarrow> nat \<Rightarrow> vm_error + 32 word" where
  "machineIpForJavaIp_loop c javaIP bottom' top' =
     (let span = top' - bottom'
      in if span \<noteq> 0 then
           (let middle = bottom' + (span div 2)
            in case get2 (javaIPs c) (of_nat (middle * 2)) of
                 Inl e \<Rightarrow> Inl e
               | Inr k \<Rightarrow>
                   if javaIP < k then machineIpForJavaIp_loop c javaIP bottom' middle
                   else if javaIP > k then machineIpForJavaIp_loop c javaIP (middle + 1) top'
                   else get4 (machineIPs c) (of_nat (middle * 4)))
         else Inl Abort)"
  by pat_completeness auto
termination
  by (relation "measure (\<lambda>(c, javaIP, bottom', top'). top' - bottom')") auto

declare machineIpForJavaIp_loop.simps [simp del]

definition machineIpForJavaIp :: "Compiler \<Rightarrow> 16 word \<Rightarrow> vm_error + 32 word" where
  "machineIpForJavaIp c javaIP =
     machineIpForJavaIp_loop c javaIP 0 (unat (length_buf (javaIPs c)) div 2)"

text \<open>
  The main loop of \<open>Compiler::compile\<close> (lines 1139-2043).  Each iteration records
  the pair of the bytecode ip and the current machine offset, fetches the opcode
  with \<open>codeBody(t, code, ip++)\<close> and runs the rest of the body: the line-number
  bookkeeping and the \<open>switch\<close> on the opcode.  That rest is the parameter
  \<open>body\<close>; it gets the ip of the opcode and returns how many operand bytes the
  template read after it, with the compiler afterwards, or the reason why
  \<open>compile\<close> stopped (a pending exception, \<open>abort\<close>).
\<close>

type_synonym loop_body = "nat \<Rightarrow> Compiler \<Rightarrow> vm_error + nat \<times> Compiler"

definition record_ips :: "nat \<Rightarrow> Compiler \<Rightarrow> Compiler" where
  "record_ips ip c =
     (let c1 = c\<lparr>javaIPs := append2 (javaIPs c) (of_nat ip)\<rparr>
      in c1\<lparr>machineIPs := append4 (machineIPs c1) (length_buf (code c1))\<rparr>)"

function compile_loop :: "loop_body \<Rightarrow> nat \<Rightarrow> nat \<Rightarrow> Compiler \<Rightarrow> vm_error + Compiler" where
  "compile_loop body codeLength ip c =
     (if ip < codeLength then
        (case body ip (record_ips ip c) of
           Inl e \<Rightarrow> Inl e
         | Inr (n, c') \<Rightarrow> compile_loop body codeLength (ip + 1 + n) c')
      else Inr c)"
  by pat_completeness auto
termination
  by (relation "measure (\<lambda>(body, codeLength, ip, c). codeLength - ip)") auto

declare compile_loop.simps [simp del]

text \<open>
  \<open>Compiler::compile\<close> from its start (line 1112) to the end of the main loop
  (line 2043): the prologue \<open>push(rbp); mov(rsp, rbp)\<close> and, when the locals need
  more room than the parameters, \<open>sub(localFootprint - parameterFootprint, rsp)\<close>
  come before the loop, so the loop starts on code that is not empty.  Both
  footprints are \<open>unsigned\<close>; \<open>methodParameterFootprint\<close> and \<open>codeMaxLocals\<close>
  are read from the method and are parameters.  What follows the loop
  (\<open>resolveJumps\<close>, \<open>buildExceptionHandlerTable\<close>, \<open>finish\<close>) reads the two map
  buffers and does not write them.
\<close>

definition compile_prologue ::
  "arch \<Rightarrow> 32 word \<Rightarrow> 32 word \<Rightarrow> Compiler \<Rightarrow> vm_error + Compiler" where
  "compile_prologue a methodParameterFootprint codeMaxLocals c =
     (let parameterFootprint = methodParameterFootprint * of_nat (BytesPerWord a);
          localFootprint = codeMaxLocals * of_nat (BytesPerWord a);
          c1 = mov_reg_reg a rsp rbp (push_reg rbp c)
      in if localFootprint > parameterFootprint
         then sub_imm_reg a (localFootprint - parameterFootprint) rsp c1
         else Inr c1)"

definition compile ::
  "arch \<Rightarrow> loop_body \<Rightarrow> 32 word \<Rightarrow> 32 word \<Rightarrow> nat \<Rightarrow> Compiler \<Rightarrow> vm_error + Compiler" where
  "compile a body methodParameterFootprint codeMaxLocals codeLength c =
     (case compile_prologue a methodParameterFootprint codeMaxLocals c of
        Inl e \<Rightarrow> Inl e
      | Inr c1 \<Rightarrow> compile_loop body codeLength 0 c1)"

text \<open>Six cases of the \<open>switch\<close>, as they are written in the source.  The opcode
  numbers are declared in constants.h, outside the sources, so the decoding of
  an opcode byte is a parameter.\<close>

datatype opcode = iconst_0 | iconst_1 | bipush | iadd | ireturn | return' | other_opcode

definition switch_case ::
  "arch \<Rightarrow> (8 word \<Rightarrow> opcode) \<Rightarrow> 8 word list \<Rightarrow> loop_body" where
  "switch_case a decode codeBody ip c =
     (case decode (codeBody ! ip) of
        iconst_0 \<Rightarrow> Inr (0, push_imm 0 c)
      | iconst_1 \<Rightarrow> Inr (0, push_imm 1 c)
      | bipush \<Rightarrow>
          (if ip + 1 < length codeBody
           then Inr (1, push_imm (scast (codeBody ! (ip + 1))) c)
           else Inl OutsideBlock)
      | iadd \<Rightarrow> Inr (0, push_reg rcx (add_reg_reg a rax rcx (pop_reg rcx (pop_reg rax c))))
      | ireturn \<Rightarrow> Inr (0, ret (pop_reg rbp (mov_reg_reg a rbp rsp (pop_reg rax c))))
      | return' \<Rightarrow> Inr (0, ret (pop_reg rbp (mov_reg_reg a rbp rsp c)))
      | other_opcode \<Rightarrow> Inl Abort)"

section \<open>Call-site patching: \<open>updateCaller\<close> (lines 2258-2282)\<close>

text \<open>Code memory is read and written byte by byte.\<close>

type_synonym code_memory = "address \<Rightarrow> 8 word"

text \<open>The bytes of a pointer in memory order: one machine word.\<close>

definition address_bytes :: "arch \<Rightarrow> 64 word \<Rightarrow> 8 word list" where
  "address_bytes a v =
     (if BytesPerWord a = 8 then bytes4 (ucast v) @ bytes4 (ucast (drop_bit 32 v))
      else bytes4 (ucast v))"

fun store_bytes :: "code_memory \<Rightarrow> address \<Rightarrow> 8 word list \<Rightarrow> code_memory" where
  "store_bytes cm p [] = cm"
| "store_bytes cm p (b # bs) = store_bytes (cm(p := b)) (p + 1) bs"

definition load_bytes :: "code_memory \<Rightarrow> address \<Rightarrow> nat \<Rightarrow> 8 word list" where
  "load_bytes cm p n = map (\<lambda>i. cm (p + int i)) [0..<n]"

text \<open>\<open>stub\<close> is the address of the body of the method stub, \<open>entry\<close> the address
  of the body of the method's compiled code.  The result is the code memory
  afterwards.\<close>

definition updateCaller ::
  "arch \<Rightarrow> (nat \<Rightarrow> 8 word) \<Rightarrow> memory \<Rightarrow> MyThread \<Rightarrow> 64 word \<Rightarrow> 64 word
     \<Rightarrow> code_memory \<Rightarrow> vm_error + code_memory" where
  "updateCaller a sys mem t stub entry cm =
     (let a1 = mov_imm_reg a stub rax (Assembler_new sys);
          offset = length_buf (code a1) - of_nat (BytesPerWord a);
          a2 = call_reg rax a1;
          caller = word_index a mem (frame t) 1 - uint (length_buf (code a2))
      in if load_bytes cm caller (unat (length_buf (code a2))) = copyTo (code a2)
         then (if (caller + uint offset) mod int (BytesPerWord a) = 0
               then Inr (store_bytes cm (caller + uint offset) (address_bytes a entry))
               else Inl AssertionFailed)
         else Inr cm)"

text \<open>\<open>class Code\<close> (lines 124-166) keeps three \<open>uint32_t\<close> lengths before
  \<open>body\<close>, and \<open>finish\<close> (line 2174) constructs it at the start of the block it
  allocates: \<open>Code::code()\<close>, the address the compiled code is copied to and
  runs from, is 12 bytes into the allocation.\<close>

definition Code_header :: nat where
  "Code_header = 3 * 4"

definition Code_code :: "address \<Rightarrow> address" where
  "Code_code allocation = allocation + int Code_header"

section \<open>ArgumentList and \<open>invoke\<close> (lines 2296-2508)\<close>

text \<open>\<open>array\<close> and \<open>objectMask\<close> are caller-supplied, uninitialised stack arrays:
  a slot holds a value only once it has been written.\<close>

record ArgumentList =
  array :: "nat \<rightharpoonup> 64 word"
  objectMask :: "nat \<rightharpoonup> bool"
  arg_position :: nat

definition addObject :: "object \<Rightarrow> ArgumentList \<Rightarrow> ArgumentList" where
  "addObject v l =
     l\<lparr>array := (array l)(arg_position l \<mapsto> of_nat v),
       objectMask := (objectMask l)(arg_position l \<mapsto> True),
       arg_position := arg_position l + 1\<rparr>"

definition addInt :: "32 word \<Rightarrow> ArgumentList \<Rightarrow> ArgumentList" where
  "addInt v l =
     l\<lparr>array := (array l)(arg_position l \<mapsto> ucast v),
       objectMask := (objectMask l)(arg_position l \<mapsto> False),
       arg_position := arg_position l + 1\<rparr>"

text \<open>\<open>memcpy(array + position, &v, 8)\<close> fills two words of four bytes or one
  word of eight.\<close>

definition addLong :: "arch \<Rightarrow> 64 word \<Rightarrow> ArgumentList \<Rightarrow> ArgumentList" where
  "addLong a v l =
     (let arr = (if BytesPerWord a = 8 then (array l)(arg_position l \<mapsto> v)
                 else (array l)(arg_position l \<mapsto> v AND 0xFFFFFFFF,
                                arg_position l + 1 \<mapsto> drop_bit 32 v));
          mask1 = (objectMask l)(arg_position l \<mapsto> False);
          mask2 = mask1(arg_position l \<mapsto> False)
      in l\<lparr>array := arr, objectMask := mask2, arg_position := arg_position l + 2\<rparr>)"

text \<open>The head pointer of a reference chain, as \<open>t->reference\<close> holds it.\<close>

definition head_reference :: "MyThread \<Rightarrow> address" where
  "head_reference t = (case reference t of [] \<Rightarrow> 0 | r # _ \<Rightarrow> r)"

text \<open>Modelled from the spec: \<open>dispose(t, r)\<close> and the \<open>Reference\<close> class are
  declared in machine.h, outside the sources.  The specification describes a
  per-thread singly linked list of local references whose nodes are freed one
  by one; disposing a node unlinks it from the chain.\<close>

definition dispose :: "MyThread \<Rightarrow> address \<Rightarrow> MyThread" where
  "dispose t r = t\<lparr>reference := remove1 r (reference t)\<rparr>"

text \<open>\<open>while (t->reference != reference) dispose(t, t->reference);\<close>
  With an empty chain \<open>dispose\<close> would be handed the null pointer.\<close>

function dispose_until :: "MyThread \<Rightarrow> address \<Rightarrow> vm_error + MyThread" where
  "dispose_until t saved =
     (if head_reference t \<noteq> saved then
        (case reference t of
           [] \<Rightarrow> Inl NullDereference
         | r # _ \<Rightarrow> dispose_until (dispose t r) saved)
      else Inr t)"
  by pat_completeness auto
termination
  by (relation "measure (\<lambda>(t, saved). length (reference t))") (auto simp: dispose_def)

declare dispose_until.simps [simp del]

text \<open>The field codes of constants.h that \<open>invoke\<close> switches on; every other
  value takes the \<open>default\<close> branch.\<close>

datatype FieldCode =
  ByteField | BooleanField | CharField | ShortField | FloatField | IntField
  | LongField | DoubleField | ObjectField | VoidField | OtherField

text \<open>What \<open>invoke\<close> returns: the object made by \<open>makeInt\<close> or \<open>makeLong\<close> from
  the raw result, an object read from memory, or null.\<close>

datatype boxed = MakeInt "64 word" | MakeLong "64 word" | Object object | Null

text \<open>\<open>vmInvoke\<close> is an assembly routine outside the sources.  It is a
  parameter: given the method, the argument array and its size in bytes it
  yields the raw result and the thread as the callee leaves it.\<close>

type_synonym vmInvoke_fn =
  "object \<Rightarrow> (nat \<rightharpoonup> 64 word) \<Rightarrow> nat \<Rightarrow> MyThread \<Rightarrow> 64 word \<times> MyThread"

text \<open>\<open>static_cast<uintptr_t>(result)\<close>: the low 32 bits where a pointer has 32.\<close>

definition to_uintptr :: "arch \<Rightarrow> 64 word \<Rightarrow> 64 word" where
  "to_uintptr a v = (if BytesPerWord a = 8 then v else v AND 0xFFFFFFFF)"

definition invoke ::
  "arch \<Rightarrow> vmInvoke_fn \<Rightarrow> (object \<Rightarrow> FieldCode) \<Rightarrow> memory
     \<Rightarrow> MyThread \<Rightarrow> object \<Rightarrow> ArgumentList \<Rightarrow> vm_error + boxed \<times> MyThread" where
  "invoke a vmInvoke methodReturnCode mem t method arguments =
     (let args = (array arguments)(1 \<mapsto> of_nat method);
          returnCode = methodReturnCode method;
          frame0 = frame t;
          reference0 = head_reference t;
          (result, t1) = vmInvoke method args (arg_position arguments * BytesPerWord a) t
      in case dispose_until t1 reference0 of
           Inl e \<Rightarrow> Inl e
         | Inr t2 \<Rightarrow>
             (let t3 = t2\<lparr>frame := frame0\<rparr>
              in case returnCode of
                   ByteField \<Rightarrow> Inr (MakeInt result, t3)
                 | BooleanField \<Rightarrow> Inr (MakeInt result, t3)
                 | CharField \<Rightarrow> Inr (MakeInt result, t3)
                 | ShortField \<Rightarrow> Inr (MakeInt result, t3)
                 | FloatField \<Rightarrow> Inr (MakeInt result, t3)
                 | IntField \<Rightarrow> Inr (MakeInt result, t3)
                 | LongField \<Rightarrow> Inr (MakeLong result, t3)
                 | DoubleField \<Rightarrow> Inr (MakeLong result, t3)
                 | ObjectField \<Rightarrow>
                     Inr (if result = 0 then Null
                          else Object (nat (mem (uint (to_uintptr a result)))), t3)
                 | VoidField \<Rightarrow> Inr (Null, t3)
                 | OtherField \<Rightarrow> Inl Abort))"

section \<open>The array-allocation templates (lines 1333-1352 and 1875-1930)\<close>

text \<open>
  A template is the sequence of \<open>Assembler\<close> and \<open>compileCall\<close> calls the case
  makes, in order.  Running it gives the helper calls of the emitted code.
  \<open>CompileCall\<close> stands for the overloads \<open>compileCall(void*, object)\<close> and
  \<open>compileCall(void*, object, Register)\<close>, which pass the register before they
  touch \<open>rax\<close>.  \<open>CompileCallPointer\<close> stands for the overload
  \<open>compileCall(void*, void*, Register)\<close> (lines 1067-1089), which first loads
  the thread pointer from the frame into \<open>rax\<close> and passes the register after
  that.
\<close>

datatype exception_type = NegativeArraySizeExceptionType | ArrayIndexOutOfBoundsExceptionType

datatype array_constructor =
  makeBooleanArray | makeCharArray | makeFloatArray | makeDoubleArray
  | makeByteArray | makeShortArray | makeIntArray | makeLongArray

datatype helper =
  throwNew exception_type
  | makeBlankObjectArray object
  | makeBlankArray array_constructor

datatype asm_call =
  Pop Register
  | Cmp "32 word" Register
  | Jle nat
  | Jge nat
  | Mark nat
  | CompileCall helper "Register option"
  | CompileCallPointer helper Register
  | Push Register

text \<open>A machine state for the emitted code: registers, the stack (top first),
  the two operands of the last \<open>cmp\<close> (register value, immediate) and the
  thread pointer the frame holds at \<open>[rbp + FrameThread]\<close>.  The stack slot of
  a Java \<open>int\<close> is read as its 32 bits, which is what \<open>cmp\<close> without an
  operand-size prefix compares.\<close>

record cpu =
  regs :: "Register \<Rightarrow> 32 word"
  stack :: "32 word list"
  flags :: "32 word \<times> 32 word"
  frame_thread :: "32 word"

datatype event = Threw exception_type | Called helper "32 word"

text \<open>
  \<open>run ops skip st\<close>: \<open>skip = Some l\<close> while a taken jump looks for the mark of
  label \<open>l\<close>.  \<open>jle\<close> is taken when the register is at most the immediate,
  \<open>jge\<close> when it is at least the immediate (signed).  \<open>throwNew\<close> does not
  return.  \<open>helper_result\<close> gives what another helper leaves in \<open>rax\<close>.
\<close>

fun run ::
  "(helper \<Rightarrow> 32 word \<Rightarrow> 32 word) \<Rightarrow> asm_call list \<Rightarrow> nat option \<Rightarrow> cpu \<Rightarrow> event list" where
  "run hr [] skip st = []"
| "run hr (Mark l # ops) skip st = run hr ops (if skip = Some l then None else skip) st"
| "run hr (i # ops) (Some l) st = run hr ops (Some l) st"
| "run hr (Pop r # ops) None st =
     (case stack st of
        [] \<Rightarrow> []
      | v # vs \<Rightarrow> run hr ops None (st\<lparr>regs := (regs st)(r := v), stack := vs\<rparr>))"
| "run hr (Cmp v r # ops) None st = run hr ops None (st\<lparr>flags := (regs st r, v)\<rparr>)"
| "run hr (Jle l # ops) None st =
     run hr ops (if sint (fst (flags st)) \<le> sint (snd (flags st)) then Some l else None) st"
| "run hr (Jge l # ops) None st =
     run hr ops (if sint (fst (flags st)) \<ge> sint (snd (flags st)) then Some l else None) st"
| "run hr (CompileCall (throwNew e) arg # ops) None st = [Threw e]"
| "run hr (CompileCall h arg # ops) None st =
     (let v = (case arg of Some r \<Rightarrow> regs st r | None \<Rightarrow> 0)
      in Called h v # run hr ops None (st\<lparr>regs := (regs st)(rax := hr h v)\<rparr>))"
| "run hr (CompileCallPointer (throwNew e) r # ops) None st = [Threw e]"
| "run hr (CompileCallPointer h r # ops) None st =
     (let st1 = st\<lparr>regs := (regs st)(rax := frame_thread st)\<rparr>;
          v = regs st1 r
      in Called h v # run hr ops None (st1\<lparr>regs := (regs st1)(rax := hr h v)\<rparr>))"
| "run hr (Push r # ops) None st = run hr ops None (st\<lparr>stack := regs st r # stack st\<rparr>)"

text \<open>\<open>case anewarray\<close>, after \<open>resolveClass\<close> has given \<open>cls\<close>; the label
  \<open>nonnegative\<close> is label 0.\<close>

definition anewarray_template :: "object \<Rightarrow> asm_call list" where
  "anewarray_template cls =
     [Pop rax, Cmp 0 rax, Jle 0,
      CompileCall (throwNew NegativeArraySizeExceptionType) None,
      Mark 0,
      CompileCall (makeBlankObjectArray cls) (Some rax),
      Push rax]"

text \<open>\<open>case newarray\<close>: the type codes \<open>T_BOOLEAN\<close> ... \<open>T_LONG\<close> select the
  constructor, any other operand byte aborts the compilation.\<close>

datatype array_type =
  T_BOOLEAN | T_CHAR | T_FLOAT | T_DOUBLE | T_BYTE | T_SHORT | T_INT | T_LONG | T_other

fun newarray_constructor :: "array_type \<Rightarrow> array_constructor option" where
  "newarray_constructor T_BOOLEAN = Some makeBooleanArray"
| "newarray_constructor T_CHAR = Some makeCharArray"
| "newarray_constructor T_FLOAT = Some makeFloatArray"
| "newarray_constructor T_DOUBLE = Some makeDoubleArray"
| "newarray_constructor T_BYTE = Some makeByteArray"
| "newarray_constructor T_SHORT = Some makeShortArray"
| "newarray_constructor T_INT = Some makeIntArray"
| "newarray_constructor T_LONG = Some makeLongArray"
| "newarray_constructor T_other = None"

definition newarray_template :: "array_type \<Rightarrow> vm_error + asm_call list" where
  "newarray_template ty =
     (case newarray_constructor ty of
        None \<Rightarrow> Inl Abort
      | Some constructor \<Rightarrow>
          Inr [Pop rax, Cmp 0 rax, Jge 0,
               CompileCall (throwNew NegativeArraySizeExceptionType) None,
               Mark 0,
               CompileCallPointer (makeBlankArray constructor) rax,
               Push rax])"

section \<open>Predicates and sample inputs of the theorems\<close>

text \<open>The catch type of a handler-table entry as \<open>findExceptionHandler\<close>
  resolves it: null for index 0, otherwise the entry of the method's pool.\<close>

definition catchType_of :: "Machine \<Rightarrow> object \<Rightarrow> NativeExceptionHandler \<Rightarrow> object" where
  "catchType_of m method handler =
     (if nativeExceptionHandlerCatchType handler \<noteq> 0
      then methodCode m method (unat (nativeExceptionHandlerCatchType handler - 1))
      else 0)"

text \<open>The fault offset biased by \<open>-1\<close> lies in \<open>[start, end)\<close>, read on the
  integers.\<close>

definition covers_fault :: "int \<Rightarrow> NativeExceptionHandler \<Rightarrow> bool" where
  "covers_fault off handler =
     (uint (nativeExceptionHandlerStart handler) \<le> off - 1
      \<and> off - 1 < uint (nativeExceptionHandlerEnd handler))"

text \<open>The thread as the callee leaves it when \<open>invoke\<close> calls \<open>vmInvoke\<close>.\<close>

definition callee_thread :: "arch \<Rightarrow> vmInvoke_fn \<Rightarrow> MyThread \<Rightarrow> object \<Rightarrow> ArgumentList \<Rightarrow> MyThread" where
  "callee_thread a vmInvoke t method arguments =
     snd (vmInvoke method ((array arguments)(1 \<mapsto> of_nat method))
            (arg_position arguments * BytesPerWord a) t)"

text \<open>A callee that creates two local references, moves the frame pointer and
  leaves a pending exception; a thread and an argument list to call it with.\<close>

definition demo_callee :: vmInvoke_fn where
  "demo_callee method args sz t =
     (7, t\<lparr>exception := 9, frame := 4096, reference := [300, 200] @ reference t\<rparr>)"

definition demo_thread :: MyThread where
  "demo_thread = \<lparr>exception = 0, frame = 1024, reference = [100]\<rparr>"

definition demo_arguments :: ArgumentList where
  "demo_arguments = addInt 4 (addInt 3 (addObject 0 (addInt 0
      \<lparr>array = Map.empty, objectMask = Map.empty, arg_position = 0\<rparr>)))"

text \<open>A buffer in a consistent state: a null \<open>data\<close> goes with position and
  capacity 0, a block holds at least \<open>position\<close> and at least \<open>capacity\<close> bytes.\<close>

definition buffer_ok :: "Buffer \<Rightarrow> bool" where
  "buffer_ok b =
     (case data b of
        None \<Rightarrow> position b = 0 \<and> capacity b = 0
      | Some d \<Rightarrow> unat (position b) \<le> length d \<and> unat (capacity b) \<le> length d)"

text \<open>An allocator whose fresh memory is all zero, for concrete runs.\<close>

definition zero_memory :: "nat \<Rightarrow> 8 word" where
  "zero_memory i = 0"

text \<open>The bytes \<open>mov(uintptr_t, Register)\<close> appends: the operand-size prefix on
  64 bit, the opcode with the register, the immediate.\<close>

definition mov_imm_bytes :: "arch \<Rightarrow> 64 word \<Rightarrow> Register \<Rightarrow> 8 word list" where
  "mov_imm_bytes a v dst =
     (if BytesPerWord a = 8 then [0x48] else []) @ [ucast (0xb8 OR reg dst)] @ address_bytes a v"

text \<open>The bytes \<open>call(Register)\<close> appends.\<close>

definition call_bytes :: "Register \<Rightarrow> 8 word list" where
  "call_bytes rg = [0xff, ucast (0xd0 OR reg rg)]"

text \<open>\<open>emits b b' bytes\<close>: buffer \<open>b'\<close> is consistent and holds what \<open>b\<close> holds
  followed by \<open>bytes\<close>.\<close>

definition emits :: "Buffer \<Rightarrow> Buffer \<Rightarrow> 8 word list \<Rightarrow> bool" where
  "emits b b' bytes =
     (buffer_ok b' \<and> copyTo b' = copyTo b @ bytes
      \<and> unat (position b') = unat (position b) + length bytes)"

text \<open>The reference sequence \<open>updateCaller\<close> emits into a fresh assembler:
  \<open>mov(stub, rax); call(rax)\<close>.\<close>

definition reference_sequence :: "arch \<Rightarrow> 64 word \<Rightarrow> 8 word list" where
  "reference_sequence a stub = mov_imm_bytes a stub rax @ call_bytes rax"

text \<open>Where the immediate starts inside the \<open>mov\<close>: after the opcode and, on 64
  bit, the prefix.\<close>

definition immediate_index :: "arch \<Rightarrow> nat" where
  "immediate_index a = (if BytesPerWord a = 8 then 2 else 1)"

text \<open>Code memory that holds \<open>bytes\<close> from address \<open>base\<close> on and zero elsewhere;
  a direct call site compiled into a fresh compiler, loaded at address 4096; a
  stack whose words all hold the return address of that call; code memory
  without any call site.\<close>

definition place :: "address \<Rightarrow> 8 word list \<Rightarrow> code_memory" where
  "place base bytes p =
     (if base \<le> p \<and> p < base + int (length bytes) then bytes ! nat (p - base) else 0)"

definition demo_stub :: "64 word" where "demo_stub = 0x1000"

definition demo_entry :: "64 word" where "demo_entry = 0x2000"

definition demo_call_site :: "8 word list" where
  "demo_call_site = copyTo (code (callAlignedAddress X86_32 demo_stub (Compiler_new zero_memory)))"

definition demo_code_memory :: code_memory where
  "demo_code_memory = place 4096 demo_call_site"

definition demo_stack :: memory where
  "demo_stack p = 4106"

definition empty_code_memory :: code_memory where
  "empty_code_memory p = 0"

text \<open>The pairs the main loop records, in order: the bytecode ip of each
  iteration with the machine offset it appends for it.\<close>

function compile_trace :: "loop_body \<Rightarrow> nat \<Rightarrow> nat \<Rightarrow> Compiler \<Rightarrow> (nat \<times> 32 word) list" where
  "compile_trace body codeLength ip c =
     (if ip < codeLength then
        (ip, length_buf (code c))
          # (case body ip (record_ips ip c) of
               Inl e \<Rightarrow> []
             | Inr (n, c') \<Rightarrow> compile_trace body codeLength (ip + 1 + n) c')
      else [])"
  by pat_completeness auto
termination
  by (relation "measure (\<lambda>(body, codeLength, ip, c). codeLength - ip)") auto

declare compile_trace.simps [simp del]

text \<open>The pairs \<open>compile\<close> records: those of the main loop started after the
  prologue.\<close>

definition compile_pairs ::
  "arch \<Rightarrow> loop_body \<Rightarrow> 32 word \<Rightarrow> 32 word \<Rightarrow> nat \<Rightarrow> Compiler \<Rightarrow> (nat \<times> 32 word) list" where
  "compile_pairs a body methodParameterFootprint codeMaxLocals codeLength c =
     (case compile_prologue a methodParameterFootprint codeMaxLocals c of
        Inl e \<Rightarrow> []
      | Inr c1 \<Rightarrow> compile_trace body codeLength 0 c1)"

text \<open>The bytes of the two map buffers for a list of recorded pairs.\<close>

definition javaIPs_image :: "(nat \<times> 32 word) list \<Rightarrow> 8 word list" where
  "javaIPs_image tr = concat (map (\<lambda>e. bytes2 (of_nat (fst e))) tr)"

definition machineIPs_image :: "(nat \<times> 32 word) list \<Rightarrow> 8 word list" where
  "machineIPs_image tr = concat (map (\<lambda>e. bytes4 (snd e)) tr)"

text \<open>What the theorem asks of the rest of the loop body: it leaves the two map
  buffers alone and appends at least one and at most \<open>K\<close> bytes of code.\<close>

definition template_frame :: "nat \<Rightarrow> loop_body \<Rightarrow> bool" where
  "template_frame K body =
     (\<forall>ip c n c'. body ip c = Inr (n, c') \<longrightarrow>
        javaIPs c' = javaIPs c \<and> machineIPs c' = machineIPs c
        \<and> (\<exists>k. 1 \<le> k \<and> k \<le> K
               \<and> length_buf (code c') = length_buf (code c) + of_nat k))"

text \<open>The two map buffers are consistent and hold the image of \<open>tr\<close>.\<close>

definition maps_hold :: "Compiler \<Rightarrow> (nat \<times> 32 word) list \<Rightarrow> bool" where
  "maps_hold c tr =
     (buffer_ok (javaIPs c) \<and> buffer_ok (machineIPs c)
      \<and> copyTo (javaIPs c) = javaIPs_image tr \<and> copyTo (machineIPs c) = machineIPs_image tr)"

text \<open>\<open>advances k c c'\<close>: from \<open>c\<close> to \<open>c'\<close> the map buffers stay and the code
  grows by \<open>k\<close> bytes.\<close>

definition advances :: "nat \<Rightarrow> Compiler \<Rightarrow> Compiler \<Rightarrow> bool" where
  "advances k c c' =
     (javaIPs c' = javaIPs c \<and> machineIPs c' = machineIPs c
      \<and> length_buf (code c') = length_buf (code c) + of_nat k)"

text \<open>A method body \<open>iconst_0; bipush 5; iadd; ireturn\<close> with the opcode numbers
  of the Java class-file format, its loop body, and the compiler after
  \<open>compile\<close> has run on it for a method without parameters and locals.\<close>

definition demo_bytecode :: "8 word list" where
  "demo_bytecode = [0x03, 0x10, 0x05, 0x60, 0xac]"

definition demo_decode :: "8 word \<Rightarrow> opcode" where
  "demo_decode b =
     (if b = 0x03 then iconst_0 else if b = 0x04 then iconst_1
      else if b = 0x10 then bipush else if b = 0x60 then iadd
      else if b = 0xac then ireturn else if b = 0xb1 then return' else other_opcode)"

definition demo_body :: loop_body where
  "demo_body = switch_case X86_32 demo_decode demo_bytecode"

definition demo_compiled :: Compiler where
  "demo_compiled =
     (case compile X86_32 demo_body 0 0 5 (Compiler_new zero_memory) of
        Inr c \<Rightarrow> c | Inl e \<Rightarrow> Compiler_new zero_memory)"

text \<open>A machine with one compiled method and a frame suspended in it, for the
  handler lookup.  The frame is at 1000; on X86_32 its base slot is at 984 and
  its return-address slot at 988; the base is 2000 and the method slot 2012.\<close>

definition demo_handlers :: "NativeExceptionHandler list" where
  "demo_handlers =
     [\<lparr>nativeExceptionHandlerStart = 10, nativeExceptionHandlerEnd = 40,
       nativeExceptionHandlerIp = 100, nativeExceptionHandlerCatchType = 1\<rparr>,
      \<lparr>nativeExceptionHandlerStart = 0, nativeExceptionHandlerEnd = 200,
       nativeExceptionHandlerIp = 150, nativeExceptionHandlerCatchType = 0\<rparr>]"

definition demo_code :: Code where
  "demo_code = \<lparr>code_body = 8192, exceptionHandlerTable = demo_handlers\<rparr>"

definition demo_frame_memory :: memory where
  "demo_frame_memory p =
     (if p = 984 then 2000 else if p = 988 then 8232 else if p = 2012 then 5 else 0)"

definition demo_methodCompiled :: "object \<Rightarrow> Code" where
  "demo_methodCompiled method = demo_code"

definition demo_pool :: "object \<Rightarrow> nat \<Rightarrow> object" where
  "demo_pool method i = (if i = 0 then 50 else 0)"

definition demo_flags :: "object \<Rightarrow> 32 word" where
  "demo_flags method = 0"

definition demo_instanceOf :: "object \<Rightarrow> object \<Rightarrow> bool" where
  "demo_instanceOf cls ob = (cls = 50 \<and> ob = 77)"

definition demo_machine :: Machine where
  "demo_machine =
     \<lparr>memory_of = demo_frame_memory, methodCompiled = demo_methodCompiled,
      methodCode = demo_pool, methodFlags = demo_flags, ACC_NATIVE = 0x100,
      instanceOf = demo_instanceOf\<rparr>"

definition demo_faulting_thread :: "object \<Rightarrow> MyThread" where
  "demo_faulting_thread ob = \<lparr>exception = ob, frame = 1000, reference = []\<rparr>"

text \<open>A \<open>Code\<close> allocated at 4096 that holds a direct call site compiled into a
  fresh compiler on X86_64, and a stack whose words all hold the return address
  of that call.\<close>

definition demo_allocation :: address where
  "demo_allocation = 4096"

definition demo_call_site_64 :: "8 word list" where
  "demo_call_site_64 = copyTo (code (callAlignedAddress X86_64 demo_stub (Compiler_new zero_memory)))"

definition demo_code_memory_64 :: code_memory where
  "demo_code_memory_64 = place (Code_code demo_allocation) demo_call_site_64"

definition demo_stack_64 :: memory where
  "demo_stack_64 p = 4126"

section \<open>Verification\<close>

subsection \<open>The throwing helper\<close>

text \<open>
  C1.  The claim reads: \<open>throw_(t, o)\<close> sets the pending exception to \<open>o\<close> when
  \<open>o\<close> is non-null and to a new NullPointerException when \<open>o\<close> is null.  The
  source tests \<open>if (o)\<close> and assigns the other way round: for every non-null
  object (\<open>Suc n\<close>) the pending exception becomes the new NullPointerException
  and the thrown object is lost, and for the null object the pending exception
  becomes null.
\<close>

theorem throw_swaps_branches:
  "exception (fst (throw' a m npe t (Suc n))) = npe
   \<and> exception (fst (throw' a m npe t 0)) = 0"
  by (simp add: throw'_def Let_def)

subsection \<open>Frame constants\<close>

text \<open>
  C2.  The claim reads: \<open>FrameNext\<close> equals \<open>FrameMethod\<close> plus one machine word,
  so that \<open>frameNext\<close> reads the previous frame pointer from its own slot.  In
  the source \<open>FrameNext\<close> is initialised from itself and comes out as one
  machine word; it differs from \<open>FrameMethod + BytesPerWord\<close>, and \<open>frameNext\<close>
  reads the very slot \<open>frameReturnAddress\<close> reads, in every memory and for every
  frame.
\<close>

theorem FrameNext_is_return_address_slot:
  "FrameNext a = BytesPerWord a
   \<and> FrameNext a \<noteq> FrameMethod a + BytesPerWord a
   \<and> frameNext a mem fr = frameReturnAddress a mem fr"
  by (cases a)
     (simp_all add: FrameNext_def FrameNext_zero_initialized_def FrameMethod_def
        FrameThread_def frameNext_def frameReturnAddress_def)

subsection \<open>Array allocation templates\<close>

text \<open>The \<open>newarray\<close> template throws exactly for a negative length and calls
  the allocation helper otherwise.  What the helper receives in place of the
  length is the thread pointer, which \<open>compileCall\<close> has put into \<open>rax\<close> by
  then.\<close>

lemma newarray_template_runs:
  "newarray_template ty = Inr ops \<Longrightarrow>
   run hr ops None (st\<lparr>stack := len # rest\<rparr>)
     = (if sint len < 0 then [Threw NegativeArraySizeExceptionType]
        else [Called (makeBlankArray (the (newarray_constructor ty))) (frame_thread st)])"
  by (auto simp: newarray_template_def split: option.splits)

text \<open>
  C3.  The claim reads: both templates call \<open>throwNew(NegativeArraySizeException)\<close>
  exactly when the popped length is negative and call the allocation helper
  exactly when it is not.  The \<open>anewarray\<close> template jumps over the throw with
  \<open>jle\<close> where \<open>newarray\<close> uses \<open>jge\<close>: its code throws exactly when the length
  is positive, and hands every other length, the negative ones too, to
  \<open>makeBlankObjectArray\<close>.
\<close>

theorem anewarray_throws_on_positive_length:
  "run hr (anewarray_template cls) None (st\<lparr>stack := len # rest\<rparr>)
     = (if 0 < sint len then [Threw NegativeArraySizeExceptionType]
        else [Called (makeBlankObjectArray cls) len])"
  by (simp add: anewarray_template_def)

subsection \<open>Buffer growth\<close>

text \<open>
  C5.  The claim reads: when an append needs more room the buffer grows, the
  old bytes are copied and the recorded capacity is updated.  \<open>ensure\<close> never
  assigns \<open>capacity\<close>: the field keeps its value through \<open>ensure\<close> and through
  \<open>append\<close>.  A buffer made by the constructor with minimum capacity 1024 has,
  after its first \<open>append\<close>, a block of 1024 bytes and a recorded capacity of
  0, so the next \<open>append\<close> allocates again.
\<close>

theorem capacity_never_recorded:
  "capacity (ensure b space) = capacity b
   \<and> capacity (append b v) = capacity b
   \<and> capacity (append (Buffer_new sys 1024) v) = 0
   \<and> map_option length (data (append (Buffer_new sys 1024) v)) = Some 1024"
  by (simp add: ensure_def append_def store_advance_def Buffer_new_def Let_def
        allocate_def memcpy_def split: option.split)

subsection \<open>Argument lists\<close>

text \<open>
  C6.  The claim reads: every word slot an argument occupies has its object-mask
  entry written, both slots of a long or double included.  \<open>addLong\<close> advances
  the position by two slots and writes the mask entry of the first slot twice;
  the entry of the second slot is what it was before the call.
\<close>

theorem addLong_leaves_second_mask_slot:
  "objectMask (addLong a v l) (arg_position l + 1) = objectMask l (arg_position l + 1)
   \<and> objectMask (addLong a v l) (arg_position l) = Some False
   \<and> arg_position (addLong a v l) = arg_position l + 2"
  by (simp add: addLong_def Let_def)

subsection \<open>Exception-handler lookup\<close>

lemma biased_offset_in_range:
  fixes offset start end' :: "32 word"
  shows "(start \<le> offset - 1 \<and> offset - 1 < end')
           = (uint start \<le> uint offset - 1 \<and> uint offset - 1 < uint end')"
proof (cases "offset = 0")
  case True
  have "\<not> (- 1 :: 32 word) < end'"
    by (simp add: not_less word_n1_ge)
  moreover have "\<not> uint start \<le> - 1"
    using uint_nonnegative [of start] by linarith
  ultimately show ?thesis using True by simp
next
  case False
  then have "1 \<le> offset" by (simp add: word_le_def) (metis uint_0_iff uint_nonnegative less_le not_less zless_imp_add1_zle zero_less_one add_0)
  then have "uint (offset - 1) = uint offset - 1"
    by (simp add: uint_minus_simple_alt)
  then show ?thesis
    by (simp add: word_le_def word_less_def)
qed

lemma handler_matches_spec:
  "handler_matches a m t fr h =
     (covers_fault
        (uint (addressOffset m (frameMethod a (memory_of m) fr) (frameAddress a (memory_of m) fr))) h
      \<and> (catchType_of m (frameMethod a (memory_of m) fr) h = 0
         \<or> instanceOf m (catchType_of m (frameMethod a (memory_of m) fr) h) (exception t)))"
  unfolding handler_matches_def covers_fault_def catchType_of_def Let_def
  using biased_offset_in_range by auto

lemma findExceptionHandler_from_find:
  "findExceptionHandler_from a m t fr i
     = find (handler_matches a m t fr)
         (drop i (exceptionHandlerTable (methodCompiled m (frameMethod a (memory_of m) fr))))"
proof (induction a m t fr i rule: findExceptionHandler_from.induct)
  case (1 a m t fr i)
  let ?tab = "exceptionHandlerTable (methodCompiled m (frameMethod a (memory_of m) fr))"
  show ?case
  proof (cases "i < length ?tab")
    case True
    then have d: "drop i ?tab = ?tab ! i # drop (Suc i) ?tab"
      by (simp add: Cons_nth_drop_Suc)
    show ?thesis
      using True 1 
      by (subst findExceptionHandler_from.simps) (simp add: d Let_def)
  next
    case False
    then show ?thesis
      by (subst findExceptionHandler_from.simps) (simp add: Let_def)
  qed
qed

text \<open>A return address right at the end of a protected region is covered: its
  biased offset is the last byte of the region.\<close>

lemma covers_fault_last_byte:
  "nativeExceptionHandlerStart h < nativeExceptionHandlerEnd h
     \<Longrightarrow> covers_fault (uint (nativeExceptionHandlerEnd h)) h"
  by (simp add: covers_fault_def word_less_def)

text \<open>The fault offset is the distance of the return address from the code
  body, truncated to the 32 bits of \<open>unsigned\<close>.\<close>

lemma uint_addressOffset:
  "uint (addressOffset m method addr) = (addr - code_body (methodCompiled m method)) mod 2 ^ 32"
  unfolding addressOffset_def uint_word_of_int_eq take_bit_eq_mod by simp

text \<open>
  C7.  \<open>findExceptionHandler\<close> returns the first entry of the method's handler
  table, in table order, such that the frame's fault offset (the frame's return
  address minus the start of the method's code body, as the 32-bit unsigned the
  source keeps it in) biased by \<open>-1\<close> lies in the entry's interval
  \<open>[start, end)\<close> and the entry's catch type is null or the pending exception is
  an instance of it; it returns null (\<open>None\<close>) when no entry is such.  The
  comparison the source makes on \<open>unsigned\<close> agrees with the comparison on
  the integers, also for offset 0.  In particular a fault whose offset is the
  end of the first entry's non-empty region (the return address after a call
  that is the region's last instruction) is caught by that entry.
\<close>

theorem findExceptionHandler_first_match:
  "findExceptionHandler a m t fr
     = find (\<lambda>h. covers_fault
                   ((frameAddress a (memory_of m) fr
                       - code_body (methodCompiled m (frameMethod a (memory_of m) fr)))
                      mod 2 ^ 32) h
                \<and> (catchType_of m (frameMethod a (memory_of m) fr) h = 0
                   \<or> instanceOf m (catchType_of m (frameMethod a (memory_of m) fr) h)
                        (exception t)))
         (exceptionHandlerTable (methodCompiled m (frameMethod a (memory_of m) fr)))
   \<and> ((frameAddress a (memory_of m) fr
          - code_body (methodCompiled m (frameMethod a (memory_of m) fr))) mod 2 ^ 32
         = uint (nativeExceptionHandlerEnd h)
       \<and> nativeExceptionHandlerStart h < nativeExceptionHandlerEnd h
       \<and> (catchType_of m (frameMethod a (memory_of m) fr) h = 0
          \<or> instanceOf m (catchType_of m (frameMethod a (memory_of m) fr) h) (exception t))
       \<and> exceptionHandlerTable (methodCompiled m (frameMethod a (memory_of m) fr)) = h # rest
      \<longrightarrow> findExceptionHandler a m t fr = Some h)"
proof -
  let ?P = "\<lambda>h. covers_fault
                   ((frameAddress a (memory_of m) fr
                       - code_body (methodCompiled m (frameMethod a (memory_of m) fr)))
                      mod 2 ^ 32) h
                \<and> (catchType_of m (frameMethod a (memory_of m) fr) h = 0
                   \<or> instanceOf m (catchType_of m (frameMethod a (memory_of m) fr) h)
                        (exception t))"
  have "handler_matches a m t fr = ?P"
    by (rule ext) (simp only: handler_matches_spec uint_addressOffset)
  then have 1: "findExceptionHandler a m t fr
     = find ?P (exceptionHandlerTable (methodCompiled m (frameMethod a (memory_of m) fr)))"
    by (simp only: findExceptionHandler_def findExceptionHandler_from_find drop_0)
  have 2: "(frameAddress a (memory_of m) fr
          - code_body (methodCompiled m (frameMethod a (memory_of m) fr))) mod 2 ^ 32
         = uint (nativeExceptionHandlerEnd h)
       \<and> nativeExceptionHandlerStart h < nativeExceptionHandlerEnd h
       \<and> (catchType_of m (frameMethod a (memory_of m) fr) h = 0
          \<or> instanceOf m (catchType_of m (frameMethod a (memory_of m) fr) h) (exception t))
       \<and> exceptionHandlerTable (methodCompiled m (frameMethod a (memory_of m) fr)) = h # rest
      \<longrightarrow> findExceptionHandler a m t fr = Some h"
  proof
    assume h: "(frameAddress a (memory_of m) fr
          - code_body (methodCompiled m (frameMethod a (memory_of m) fr))) mod 2 ^ 32
         = uint (nativeExceptionHandlerEnd h)
       \<and> nativeExceptionHandlerStart h < nativeExceptionHandlerEnd h
       \<and> (catchType_of m (frameMethod a (memory_of m) fr) h = 0
          \<or> instanceOf m (catchType_of m (frameMethod a (memory_of m) fr) h) (exception t))
       \<and> exceptionHandlerTable (methodCompiled m (frameMethod a (memory_of m) fr)) = h # rest"
    then have "?P h"
      using covers_fault_last_byte [of h] by simp
    with h show "findExceptionHandler a m t fr = Some h"
      unfolding 1 by simp
  qed
  from 1 2 show ?thesis by (rule conjI)
qed

text \<open>A frame that returns to offset 40 of a method whose table holds a typed
  handler for \<open>[10, 40)\<close> before a catch-all for \<open>[0, 200)\<close>: an instance of the
  catch type gets the first entry, any other exception the second.\<close>

lemma demo_frame:
  "frameMethod X86_32 demo_frame_memory 1000 = 5"
  "frameAddress X86_32 demo_frame_memory 1000 = 8232"
  by (simp_all add: frameMethod_def frameAddress_def frameBase_def word_index_def
        FrameFootprint_def FrameMethod_def FrameThread_def demo_frame_memory_def)

theorem findExceptionHandler_first_match_witness:
  "(frameAddress X86_32 (memory_of demo_machine) 1000
      - code_body (methodCompiled demo_machine (frameMethod X86_32 (memory_of demo_machine) 1000)))
     mod 2 ^ 32 = 40
   \<and> uint (nativeExceptionHandlerEnd (hd demo_handlers)) = 40
   \<and> nativeExceptionHandlerStart (hd demo_handlers) < nativeExceptionHandlerEnd (hd demo_handlers)
   \<and> instanceOf demo_machine
        (catchType_of demo_machine (frameMethod X86_32 (memory_of demo_machine) 1000)
           (hd demo_handlers))
        (exception (demo_faulting_thread 77))
   \<and> exceptionHandlerTable
        (methodCompiled demo_machine (frameMethod X86_32 (memory_of demo_machine) 1000))
       = hd demo_handlers # tl demo_handlers
   \<and> findExceptionHandler X86_32 demo_machine (demo_faulting_thread 77) 1000
       = Some (hd demo_handlers)
   \<and> findExceptionHandler X86_32 demo_machine (demo_faulting_thread 77) 1000
       = Some \<lparr>nativeExceptionHandlerStart = 10, nativeExceptionHandlerEnd = 40,
               nativeExceptionHandlerIp = 100, nativeExceptionHandlerCatchType = 1\<rparr>
   \<and> findExceptionHandler X86_32 demo_machine (demo_faulting_thread 78) 1000
       = Some \<lparr>nativeExceptionHandlerStart = 0, nativeExceptionHandlerEnd = 200,
               nativeExceptionHandlerIp = 150, nativeExceptionHandlerCatchType = 0\<rparr>"
proof -
  have m: "memory_of demo_machine = demo_frame_memory"
    "methodCompiled demo_machine = demo_methodCompiled"
    "methodCode demo_machine = demo_pool" "instanceOf demo_machine = demo_instanceOf"
    by (simp_all add: demo_machine_def)
  have off: "(frameAddress X86_32 (memory_of demo_machine) 1000
      - code_body (methodCompiled demo_machine (frameMethod X86_32 (memory_of demo_machine) 1000)))
     mod 2 ^ 32 = 40"
    by (simp add: m demo_frame demo_methodCompiled_def demo_code_def)
  have tab: "exceptionHandlerTable
               (methodCompiled demo_machine (frameMethod X86_32 (memory_of demo_machine) 1000))
             = demo_handlers"
    by (simp add: m demo_methodCompiled_def demo_code_def)
  have h1: "uint (nativeExceptionHandlerEnd (hd demo_handlers)) = 40"
    and h2: "nativeExceptionHandlerStart (hd demo_handlers)
               < nativeExceptionHandlerEnd (hd demo_handlers)"
    by (simp_all add: demo_handlers_def)
  have h3: "instanceOf demo_machine
        (catchType_of demo_machine (frameMethod X86_32 (memory_of demo_machine) 1000)
           (hd demo_handlers))
        (exception (demo_faulting_thread 77))"
    by (simp add: m demo_frame catchType_of_def demo_handlers_def demo_pool_def
          demo_instanceOf_def demo_faulting_thread_def)
  have h4: "exceptionHandlerTable
        (methodCompiled demo_machine (frameMethod X86_32 (memory_of demo_machine) 1000))
       = hd demo_handlers # tl demo_handlers"
    unfolding tab by (simp add: demo_handlers_def)
  have c: "findExceptionHandler X86_32 demo_machine (demo_faulting_thread 77) 1000
       = Some (hd demo_handlers)"
    by (rule findExceptionHandler_first_match
               [of X86_32 demo_machine "demo_faulting_thread 77" 1000 "hd demo_handlers"
                   "tl demo_handlers", THEN conjunct2, rule_format,
                OF conjI [OF off [unfolded h1 [symmetric]] conjI [OF h2 conjI [OF disjI2 [OF h3] h4]]]])
  from findExceptionHandler_first_match
         [of X86_32 demo_machine "demo_faulting_thread 77" 1000, THEN conjunct1]
  have a: "findExceptionHandler X86_32 demo_machine (demo_faulting_thread 77) 1000
       = Some \<lparr>nativeExceptionHandlerStart = 10, nativeExceptionHandlerEnd = 40,
               nativeExceptionHandlerIp = 100, nativeExceptionHandlerCatchType = 1\<rparr>"
    unfolding off tab
    by (simp add: demo_handlers_def covers_fault_def catchType_of_def m demo_frame
          demo_pool_def demo_instanceOf_def demo_faulting_thread_def)
  from findExceptionHandler_first_match
         [of X86_32 demo_machine "demo_faulting_thread 78" 1000, THEN conjunct1]
  have b: "findExceptionHandler X86_32 demo_machine (demo_faulting_thread 78) 1000
       = Some \<lparr>nativeExceptionHandlerStart = 0, nativeExceptionHandlerEnd = 200,
               nativeExceptionHandlerIp = 150, nativeExceptionHandlerCatchType = 0\<rparr>"
    unfolding off tab
    by (simp add: demo_handlers_def covers_fault_def catchType_of_def m demo_frame
          demo_pool_def demo_instanceOf_def demo_faulting_thread_def)
  from off h1 h2 h3 h4 c a b show ?thesis by (intro conjI)
qed

subsection \<open>The invoke bridge\<close>

lemma dispose_until_head:
  "dispose_until t saved = Inr t' \<Longrightarrow> head_reference t' = saved"
proof (induction t saved rule: dispose_until.induct)
  case (1 t saved)
  show ?case
  proof (cases "head_reference t \<noteq> saved")
    case True
    with "1.prems" obtain r rs where c: "reference t = r # rs"
      by (subst (asm) dispose_until.simps) (auto split: list.splits)
    with True "1.prems" have "dispose_until (dispose t r) saved = Inr t'"
      by (subst (asm) dispose_until.simps) simp
    with "1.IH" True c show ?thesis by simp
  next
    case False
    with "1.prems" show ?thesis
      by (subst (asm) dispose_until.simps) simp
  qed
qed

lemma dispose_until_frame:
  "dispose_until t saved = Inr t' \<Longrightarrow> frame t' = frame t \<and> exception t' = exception t"
proof (induction t saved rule: dispose_until.induct)
  case (1 t saved)
  show ?case
  proof (cases "head_reference t \<noteq> saved")
    case True
    with "1.prems" obtain r rs where c: "reference t = r # rs"
      by (subst (asm) dispose_until.simps) (auto split: list.splits)
    with True "1.prems" have "dispose_until (dispose t r) saved = Inr t'"
      by (subst (asm) dispose_until.simps) simp
    with "1.IH" True c show ?thesis by (simp add: dispose_def)
  next
    case False
    with "1.prems" show ?thesis
      by (subst (asm) dispose_until.simps) simp
  qed
qed

lemma dispose_until_pushed:
  assumes "reference t1 = new @ old" "distinct (new @ old)" "0 \<notin> set (new @ old)"
  shows "dispose_until t1 (case old of [] \<Rightarrow> 0 | r # _ \<Rightarrow> r) = Inr (t1\<lparr>reference := old\<rparr>)"
  using assms
proof (induction new arbitrary: t1)
  case Nil
  then show ?case
    by (subst dispose_until.simps) (simp add: head_reference_def)
next
  case (Cons n new)
  have ne: "head_reference t1 \<noteq> (case old of [] \<Rightarrow> 0 | r # _ \<Rightarrow> r)"
    using Cons.prems by (auto simp: head_reference_def split: list.splits)
  have d: "reference (dispose t1 n) = new @ old"
    using Cons.prems by (simp add: dispose_def)
  have "dispose_until (dispose t1 n) (case old of [] \<Rightarrow> 0 | r # _ \<Rightarrow> r)
          = Inr ((dispose t1 n)\<lparr>reference := old\<rparr>)"
    using Cons.prems by (intro Cons.IH d) auto
  moreover have "(dispose t1 n)\<lparr>reference := old\<rparr> = t1\<lparr>reference := old\<rparr>"
    by (simp add: dispose_def)
  ultimately show ?case
    using ne Cons.prems(1) by (subst dispose_until.simps) simp
qed

text \<open>
  C9.  Whenever \<open>invoke\<close> returns, the thread's frame pointer and the head of its
  reference chain are what they were at entry.  When the callee has only added
  reference nodes in front of the chain it found (and the method's return code
  is one \<open>invoke\<close> knows), \<open>invoke\<close> does return, the chain is the chain at
  entry, so every node created during the call has been disposed, and a pending
  exception left by the callee is still pending.
\<close>

theorem invoke_restores_frame_and_reference:
  "(invoke a vmInvoke rc mem t method arguments = Inr (r, t')
      \<longrightarrow> frame t' = frame t \<and> head_reference t' = head_reference t)
   \<and> (reference (callee_thread a vmInvoke t method arguments) = new @ reference t
        \<and> distinct (new @ reference t) \<and> 0 \<notin> set (new @ reference t)
        \<and> rc method \<noteq> OtherField
      \<longrightarrow> (\<exists>r t'. invoke a vmInvoke rc mem t method arguments = Inr (r, t')
              \<and> frame t' = frame t \<and> reference t' = reference t
              \<and> exception t' = exception (callee_thread a vmInvoke t method arguments)))"
proof (rule conjI [OF impI impI])
  assume i: "invoke a vmInvoke rc mem t method arguments = Inr (r, t')"
  obtain res t1 where v: "vmInvoke method ((array arguments)(1 \<mapsto> of_nat method))
            (arg_position arguments * BytesPerWord a) t = (res, t1)"
    by (cases "vmInvoke method ((array arguments)(1 \<mapsto> of_nat method))
            (arg_position arguments * BytesPerWord a) t")
  from i v obtain t2 where d: "dispose_until t1 (head_reference t) = Inr t2"
    and t': "t' = t2\<lparr>frame := frame t\<rparr>"
    by (auto simp: invoke_def Let_def split: sum.splits FieldCode.splits)
  from dispose_until_head [OF d] t'
  show "frame t' = frame t \<and> head_reference t' = head_reference t"
    by (simp add: head_reference_def)
next
  assume h: "reference (callee_thread a vmInvoke t method arguments) = new @ reference t
        \<and> distinct (new @ reference t) \<and> 0 \<notin> set (new @ reference t)
        \<and> rc method \<noteq> OtherField"
  obtain res t1 where v: "vmInvoke method ((array arguments)(1 \<mapsto> of_nat method))
            (arg_position arguments * BytesPerWord a) t = (res, t1)"
    by (cases "vmInvoke method ((array arguments)(1 \<mapsto> of_nat method))
            (arg_position arguments * BytesPerWord a) t")
  then have t1: "callee_thread a vmInvoke t method arguments = t1"
    by (simp add: callee_thread_def)
  have d: "dispose_until t1 (head_reference t) = Inr (t1\<lparr>reference := reference t\<rparr>)"
    unfolding head_reference_def
    using h t1 by (intro dispose_until_pushed) auto
  show "\<exists>r t'. invoke a vmInvoke rc mem t method arguments = Inr (r, t')
              \<and> frame t' = frame t \<and> reference t' = reference t
              \<and> exception t' = exception (callee_thread a vmInvoke t method arguments)"
    using h v d t1 by (cases "rc method") (simp_all add: invoke_def Let_def)
qed

theorem invoke_restores_frame_and_reference_witness:
  "invoke X86_32 demo_callee (\<lambda>_. IntField) (\<lambda>_. 0) demo_thread 5 demo_arguments
     = Inr (MakeInt 7, demo_thread\<lparr>exception := 9\<rparr>)
   \<and> reference (callee_thread X86_32 demo_callee demo_thread 5 demo_arguments)
        = [300, 200] @ reference demo_thread
   \<and> distinct ([300, 200] @ reference demo_thread)
   \<and> 0 \<notin> set ([300, 200] @ reference demo_thread)
   \<and> (\<exists>r t'. invoke X86_32 demo_callee (\<lambda>_. IntField) (\<lambda>_. 0) demo_thread 5 demo_arguments
                 = Inr (r, t')
              \<and> frame t' = frame demo_thread \<and> reference t' = reference demo_thread)
   \<and> frame (demo_thread\<lparr>exception := 9\<rparr>) = frame demo_thread
   \<and> head_reference (demo_thread\<lparr>exception := 9\<rparr>) = head_reference demo_thread"
proof -
  have i: "invoke X86_32 demo_callee (\<lambda>_. IntField) (\<lambda>_. 0) demo_thread 5 demo_arguments
     = Inr (MakeInt 7, demo_thread\<lparr>exception := 9\<rparr>)"
    by (simp add: invoke_def demo_callee_def demo_thread_def head_reference_def dispose_def
          dispose_until.simps Let_def)
  have c: "reference (callee_thread X86_32 demo_callee demo_thread 5 demo_arguments)
        = [300, 200] @ reference demo_thread"
    by (simp add: callee_thread_def demo_callee_def)
  have d: "distinct ([300, 200] @ reference demo_thread)"
    "0 \<notin> set ([300, 200] @ reference demo_thread)"
    by (simp_all add: demo_thread_def)
  from invoke_restores_frame_and_reference
         [of X86_32 demo_callee "\<lambda>_. IntField" "\<lambda>_. 0" demo_thread 5 demo_arguments
             "MakeInt 7" "demo_thread\<lparr>exception := 9\<rparr>" "[300, 200]"]
       i c d
  show ?thesis by simp
qed

subsection \<open>What a buffer holds after an append\<close>

lemma length_memcpy: "length (memcpy dst off src) = length dst"
  by (simp add: memcpy_def) 

lemma memcpy_inside:
  "off + length src \<le> length dst \<Longrightarrow>
   memcpy dst off src = take off dst @ src @ drop (off + length src) dst"
  by (simp add: memcpy_def)

lemma take_memcpy:
  "off + length src \<le> length dst \<Longrightarrow>
   take (off + length src) (memcpy dst off src) = take off dst @ src"
  by (simp add: memcpy_inside)

lemma take_memcpy_prefix:
  "length src \<le> length dst \<Longrightarrow> take (length src) (memcpy dst 0 src) = src"
  by (simp add: memcpy_def)

lemma take_memcpy_before:
  "n \<le> off \<Longrightarrow> take n (memcpy dst off src) = take n dst"
  by (simp add: memcpy_def take_take min_def)

lemma buffer_ok_new: "buffer_ok (Buffer_new sys mc)"
  by (simp add: buffer_ok_def Buffer_new_def)

lemma copyTo_new: "copyTo (Buffer_new sys mc) = []"
  by (simp add: copyTo_def Buffer_new_def)

lemma word_max_ge: "unat (x :: 32 word) \<le> unat (max x y)"
  by (simp add: max_def word_le_nat_alt)

lemma ensure_room:
  assumes ok: "buffer_ok b" and pos: "0 < unat space"
    and fit: "unat (position b) + unat space < 2 ^ 32"
  shows "\<exists>d. data (ensure b space) = Some d
             \<and> unat (position b) + unat space \<le> length d
             \<and> take (unat (position b)) d = copyTo b
             \<and> unat (capacity b) \<le> length d"
proof -
  have sum: "unat (position b + space) = unat (position b) + unat space"
    using fit by (simp add: unat_word_ariths)
  show ?thesis
  proof (cases "position b + space > capacity b")
    case True
    define nc where "nc = max (position b + space) (max (minimumCapacity b) (capacity b * 2))"
    have nc: "unat (position b) + unat space \<le> unat nc"
      using word_max_ge [of "position b + space"] sum by (simp add: nc_def)
    have cap: "unat (capacity b) \<le> unat nc"
      using True nc sum by (simp add: word_less_nat_alt)
    show ?thesis
    proof (cases "data b")
      case None
      then have "position b = 0" using ok by (simp add: buffer_ok_def)
      with None have "copyTo b = []" "unat (position b) = 0"
        by (simp_all add: copyTo_def)
      moreover have "data (ensure b space) = Some (allocate (s b) (unat nc))"
        using True None by (simp add: ensure_def Let_def nc_def)
      ultimately show ?thesis
        using nc cap by (simp add: allocate_def)
    next
      case (Some d)
      then have le: "unat (position b) \<le> length d" using ok by (simp add: buffer_ok_def)
      have len: "length (take (unat (position b)) d) = unat (position b)"
        using le by simp
      have "length (take (unat (position b)) d) \<le> length (allocate (s b) (unat nc))"
        using nc len by (simp add: allocate_def)
      then have "take (length (take (unat (position b)) d))
              (memcpy (allocate (s b) (unat nc)) 0 (take (unat (position b)) d))
            = take (unat (position b)) d"
        by (rule take_memcpy_prefix)
      then have "take (unat (position b))
              (memcpy (allocate (s b) (unat nc)) 0 (take (unat (position b)) d))
            = take (unat (position b)) d"
        by (simp only: len)
      moreover have "data (ensure b space)
          = Some (memcpy (allocate (s b) (unat nc)) 0 (take (unat (position b)) d))"
        using True Some by (simp add: ensure_def Let_def nc_def)
      moreover have "copyTo b = take (unat (position b)) d"
        using Some by (simp add: copyTo_def)
      ultimately show ?thesis
        using nc cap by (simp add: length_memcpy allocate_def)
    qed
  next
    case False
    then have le: "unat (position b) + unat space \<le> unat (capacity b)"
      using sum by (simp add: not_less word_le_nat_alt)
    with pos have "capacity b \<noteq> 0" by auto
    with ok obtain d where d: "data b = Some d" "unat (capacity b) \<le> length d"
      by (auto simp: buffer_ok_def split: option.splits)
    with False le show ?thesis
      by (simp add: ensure_def copyTo_def)
  qed
qed

lemma capacity_ensure: "capacity (ensure b space) = capacity b"
  by (simp add: ensure_def Let_def split: option.split)

lemma store_after_ensure:
  assumes ok: "buffer_ok b" and ne: "bytes \<noteq> []"
    and fit: "unat (position b) + length bytes < 2 ^ 32"
  defines "b' \<equiv> store_advance (ensure b (of_nat (length bytes))) bytes"
  shows "buffer_ok b'" "copyTo b' = copyTo b @ bytes"
    "unat (position b') = unat (position b) + length bytes"
    "position b' = position b + of_nat (length bytes)"
proof -
  have n: "unat (of_nat (length bytes) :: 32 word) = length bytes"
    using fit by (simp add: unat_of_nat)
  have "0 < unat (of_nat (length bytes) :: 32 word)"
    and "unat (position b) + unat (of_nat (length bytes) :: 32 word) < 2 ^ 32"
    using ne fit n by simp_all
  from ensure_room [OF ok this] n
  obtain d where d: "data (ensure b (of_nat (length bytes))) = Some d"
    "unat (position b) + length bytes \<le> length d"
    "take (unat (position b)) d = copyTo b" "unat (capacity b) \<le> length d"
    by auto
  show p: "position b' = position b + of_nat (length bytes)"
    by (simp add: b'_def store_advance_def position_ensure)
  show u: "unat (position b') = unat (position b) + length bytes"
    using fit by (simp add: p unat_word_ariths unat_of_nat)
  have dd: "data b' = Some (memcpy d (unat (position b)) bytes)"
    by (simp add: b'_def store_advance_def position_ensure d)
  have "copyTo b' = take (unat (position b) + length bytes) (memcpy d (unat (position b)) bytes)"
    by (simp add: copyTo_def dd u)
  also have "\<dots> = take (unat (position b)) d @ bytes"
    using d(2) by (rule take_memcpy)
  finally show "copyTo b' = copyTo b @ bytes"
    by (simp add: d)
  have "capacity b' = capacity b"
    by (simp add: b'_def store_advance_def capacity_ensure)
  then show "buffer_ok b'"
    using d u by (simp add: buffer_ok_def dd length_memcpy)
qed

lemma length_bytes2 [simp]: "length (bytes2 v) = 2" by (simp add: bytes2_def)
lemma length_bytes4 [simp]: "length (bytes4 v) = 4" by (simp add: bytes4_def)

lemma append_contents:
  assumes "buffer_ok b" "unat (position b) + 1 < 2 ^ 32"
  shows "buffer_ok (append b v)" "copyTo (append b v) = copyTo b @ [v]"
    "unat (position (append b v)) = unat (position b) + 1"
  using store_after_ensure [of b "[v]"] assms by (simp_all add: append_def)

lemma append2_contents:
  assumes "buffer_ok b" "unat (position b) + 2 < 2 ^ 32"
  shows "buffer_ok (append2 b v)" "copyTo (append2 b v) = copyTo b @ bytes2 v"
    "unat (position (append2 b v)) = unat (position b) + 2"
  using store_after_ensure [of b "bytes2 v"] assms by (simp_all add: append2_def bytes2_def)

lemma append4_contents:
  assumes "buffer_ok b" "unat (position b) + 4 < 2 ^ 32"
  shows "buffer_ok (append4 b v)" "copyTo (append4 b v) = copyTo b @ bytes4 v"
    "unat (position (append4 b v)) = unat (position b) + 4"
  using store_after_ensure [of b "bytes4 v"] assms by (simp_all add: append4_def bytes4_def)

lemma position_append2: "position (append2 b v) = position b + 2"
  by (simp add: append2_def store_advance_def position_ensure)

lemma position_append4: "position (append4 b v) = position b + 4"
  by (simp add: append4_def store_advance_def position_ensure)

lemma position_appendAddress:
  "position (appendAddress a b v) = position b + of_nat (BytesPerWord a)"
  by (cases a) (simp_all add: appendAddress_def Let_def position_append4)

lemma appendAddress_contents:
  assumes "buffer_ok b" "unat (position b) + BytesPerWord a < 2 ^ 32"
  shows "buffer_ok (appendAddress a b v)"
    "copyTo (appendAddress a b v) = copyTo b @ address_bytes a v"
    "unat (position (appendAddress a b v)) = unat (position b) + BytesPerWord a"
proof -
  have 1: "buffer_ok (append4 b (ucast v))"
    "copyTo (append4 b (ucast v)) = copyTo b @ bytes4 (ucast v)"
    "unat (position (append4 b (ucast v))) = unat (position b) + 4"
    using assms by (cases a; simp add: append4_contents)+
  show "buffer_ok (appendAddress a b v)"
    "copyTo (appendAddress a b v) = copyTo b @ address_bytes a v"
    "unat (position (appendAddress a b v)) = unat (position b) + BytesPerWord a"
    using assms 1
    by (cases a; simp add: appendAddress_def Let_def address_bytes_def append4_contents)+
qed

lemma word2_bytes2: "word2 (bytes2 v) = v"
  unfolding word2_def bytes2_def
  by (rule bit_word_eqI) (auto simp: bit_simps)

lemma word4_bytes4: "word4 (bytes4 v) = v"
proof (rule bit_word_eqI)
  fix n assume "n < LENGTH(32)"
  consider "n < 8" | "8 \<le> n \<and> n < 16" | "16 \<le> n \<and> n < 24" | "24 \<le> n"
    by linarith
  then show "bit (word4 (bytes4 v)) n = bit v n"
    using \<open>n < LENGTH(32)\<close>
    by cases (auto simp: word4_def bytes4_def bit_simps)
qed

subsection \<open>Pool references\<close>

lemma pool_code_append [simp]: "pool (code_append v c) = pool c"
  by (simp add: code_append_def)

lemma pool_rex [simp]: "pool (rex a c) = pool c"
  by (simp add: rex_def)

lemma pool_offsetInstruction [simp]:
  "pool (offsetInstruction i zp bp wp ra rb off c) = pool c"
  by (simp add: offsetInstruction_def Let_def)

lemma pool_mov_mem_reg [simp]: "pool (mov_mem_reg a src off dst c) = pool c"
  by (simp add: mov_mem_reg_def mov4_mem_reg_def)

lemma pool_poolReference:
  "pool (snd (poolReference a mc ob c)) = appendAddress a (pool c) (of_nat ob)"
  by (simp add: poolReference_def Let_def)

lemma fst_poolReference:
  "fst (poolReference a mc ob c) = length_buf (pool c) + 2 * of_nat (BytesPerWord a)"
  by (simp add: poolReference_def Let_def length_buf_def position_appendAddress)

text \<open>
  C4, as it is stated, fails: the claim has \<open>poolReference\<close> return the length of
  the pool buffer before the append plus one word.  On a fresh compiler (empty
  pool, 32-bit words) the first call returns 8, not \<open>0 + 4\<close>.
\<close>

theorem poolReference_counterexample:
  "fst (poolReference X86_32 12 7 (Compiler_new zero_memory))
     \<noteq> length_buf (pool (Compiler_new zero_memory)) + of_nat (BytesPerWord X86_32)"
  by (simp add: fst_poolReference Compiler_new_def Buffer_new_def length_buf_def)

text \<open>
  C4, amended.  \<open>poolReference(o)\<close> appends \<open>o\<close> first and returns the length of
  the pool buffer after the append plus one machine word, which is the length
  before the append plus two words.  Two calls whose appends are adjacent
  return offsets that differ by exactly one word.  On a consistent pool buffer
  that stays below \<open>2^32\<close> bytes the pool afterwards holds the old contents
  followed by the word of \<open>o\<close>, and the returned offset is the byte offset of
  that word plus two words: the offset of \<open>o\<close>'s slot in an array whose body
  starts two words into the array object.
\<close>

theorem poolReference_offset:
  "fst (poolReference a mc ob c)
     = length_buf (pool (snd (poolReference a mc ob c))) + of_nat (BytesPerWord a)
   \<and> fst (poolReference a mc ob c) = length_buf (pool c) + 2 * of_nat (BytesPerWord a)
   \<and> fst (poolReference a mc ob' (snd (poolReference a mc ob c)))
       = fst (poolReference a mc ob c) + of_nat (BytesPerWord a)
   \<and> (buffer_ok (pool c) \<and> unat (position (pool c)) + 2 * BytesPerWord a < 2 ^ 32
        \<longrightarrow> buffer_ok (pool (snd (poolReference a mc ob c)))
            \<and> copyTo (pool (snd (poolReference a mc ob c)))
                = copyTo (pool c) @ address_bytes a (of_nat ob)
            \<and> unat (fst (poolReference a mc ob c))
                = length (copyTo (pool c)) + 2 * BytesPerWord a)"
proof (intro conjI impI)
  show "fst (poolReference a mc ob c)
     = length_buf (pool (snd (poolReference a mc ob c))) + of_nat (BytesPerWord a)"
    by (simp add: fst_poolReference pool_poolReference length_buf_def position_appendAddress)
  show "fst (poolReference a mc ob c) = length_buf (pool c) + 2 * of_nat (BytesPerWord a)"
    by (rule fst_poolReference)
  show "fst (poolReference a mc ob' (snd (poolReference a mc ob c)))
       = fst (poolReference a mc ob c) + of_nat (BytesPerWord a)"
    by (simp add: fst_poolReference pool_poolReference length_buf_def position_appendAddress)
next
  assume h: "buffer_ok (pool c) \<and> unat (position (pool c)) + 2 * BytesPerWord a < 2 ^ 32"
  then have ok: "buffer_ok (pool c)" and fit: "unat (position (pool c)) + BytesPerWord a < 2 ^ 32"
    by simp_all
  show "buffer_ok (pool (snd (poolReference a mc ob c)))"
    by (simp add: pool_poolReference appendAddress_contents [OF ok fit])
  show "copyTo (pool (snd (poolReference a mc ob c)))
                = copyTo (pool c) @ address_bytes a (of_nat ob)"
    by (simp add: pool_poolReference appendAddress_contents [OF ok fit])
  have len: "length (copyTo (pool c)) = unat (position (pool c))"
    using ok by (auto simp: buffer_ok_def copyTo_def split: option.splits)
  have "unat (position (pool c) + 2 * of_nat (BytesPerWord a))
          = unat (position (pool c)) + 2 * BytesPerWord a"
    using h by (cases a) (simp_all add: unat_word_ariths)
  then show "unat (fst (poolReference a mc ob c))
                = length (copyTo (pool c)) + 2 * BytesPerWord a"
    by (simp add: fst_poolReference length_buf_def len)
qed

theorem poolReference_offset_witness:
  "buffer_ok (pool (Compiler_new zero_memory))
   \<and> unat (position (pool (Compiler_new zero_memory))) + 2 * BytesPerWord X86_32 < 2 ^ 32
   \<and> fst (poolReference X86_32 12 7 (Compiler_new zero_memory)) = 8
   \<and> copyTo (pool (snd (poolReference X86_32 12 7 (Compiler_new zero_memory)))) = [7, 0, 0, 0]
   \<and> fst (poolReference X86_32 12 9 (snd (poolReference X86_32 12 7 (Compiler_new zero_memory)))) = 12"
proof -
  have ok: "buffer_ok (pool (Compiler_new zero_memory))"
    by (simp add: Compiler_new_def buffer_ok_new)
  have p: "position (pool (Compiler_new zero_memory)) = 0"
    "copyTo (pool (Compiler_new zero_memory)) = []"
    by (simp_all add: Compiler_new_def Buffer_new_def copyTo_def)
  from poolReference_offset [of X86_32 12 7 "Compiler_new zero_memory" 9, THEN conjunct2] ok p
  show ?thesis
    by (simp add: length_buf_def address_bytes_def bytes4_def)
qed

subsection \<open>What the assembler appends\<close>

lemma emits_trans:
  "emits b b1 xs \<Longrightarrow> emits b1 b2 ys \<Longrightarrow> emits b b2 (xs @ ys)"
  by (simp add: emits_def)

lemma emits_refl: "buffer_ok b \<Longrightarrow> emits b b []"
  by (simp add: emits_def)

lemma emits_append:
  "buffer_ok b \<Longrightarrow> unat (position b) + 1 < 2 ^ 32 \<Longrightarrow> emits b (append b v) [v]"
  by (simp add: emits_def append_contents)

lemma emits_code_append:
  "buffer_ok (code r) \<Longrightarrow> unat (position (code r)) + 1 < 2 ^ 32
     \<Longrightarrow> emits (code r) (code (code_append v r)) [ucast v]"
  by (simp add: code_append_def emits_append)

lemma emits_appendAddress:
  "buffer_ok b \<Longrightarrow> unat (position b) + BytesPerWord a < 2 ^ 32
     \<Longrightarrow> emits b (appendAddress a b v) (address_bytes a v)"
  by (cases a) (simp_all add: emits_def appendAddress_contents address_bytes_def)

lemma length_address_bytes [simp]: "length (address_bytes a v) = BytesPerWord a"
  by (cases a) (simp_all add: address_bytes_def)

lemma emits_rex:
  "buffer_ok (code r) \<Longrightarrow> unat (position (code r)) + 1 < 2 ^ 32
     \<Longrightarrow> emits (code r) (code (rex a r)) (if BytesPerWord a = 8 then [0x48] else [])"
  using emits_code_append [of r "0x48"] by (simp add: rex_def emits_refl)

lemma emits_mov_tail:
  assumes ok: "buffer_ok (code r)" and fit: "unat (position (code r)) + BytesPerWord a + 2 < 2 ^ 32"
  shows "emits (code r)
           (code ((code_append (0xb8 OR reg dst) (rex a r))
                    \<lparr>code := appendAddress a (code (code_append (0xb8 OR reg dst) (rex a r))) v\<rparr>))
           (mov_imm_bytes a v dst)"
proof -
  let ?r1 = "rex a r"
  let ?r2 = "code_append (0xb8 OR reg dst) ?r1"
  have 1: "emits (code r) (code ?r1) (if BytesPerWord a = 8 then [0x48] else [])"
    using ok fit by (intro emits_rex) simp_all
  then have ok1: "buffer_ok (code ?r1)" and p1: "unat (position (code ?r1)) \<le> unat (position (code r)) + 1"
    by (simp_all add: emits_def)
  have 2: "emits (code ?r1) (code ?r2) [ucast (0xb8 OR reg dst :: 32 word)]"
    using ok1 p1 fit by (intro emits_code_append) simp_all
  then have ok2: "buffer_ok (code ?r2)" and p2: "unat (position (code ?r2)) \<le> unat (position (code r)) + 2"
    using p1 by (simp_all add: emits_def)
  have 3: "emits (code ?r2) (appendAddress a (code ?r2) v) (address_bytes a v)"
    using ok2 p2 fit by (intro emits_appendAddress) simp_all
  from emits_trans [OF emits_trans [OF 1 2] 3]
  show ?thesis by (simp add: mov_imm_bytes_def)
qed

lemma emits_mov_imm_reg:
  "buffer_ok (code r) \<Longrightarrow> unat (position (code r)) + BytesPerWord a + 2 < 2 ^ 32
     \<Longrightarrow> emits (code r) (code (mov_imm_reg a v dst r)) (mov_imm_bytes a v dst)"
  using emits_mov_tail [of r a dst v] by (simp add: mov_imm_reg_def Let_def)

lemma emits_call_reg:
  assumes "buffer_ok (code r)" "unat (position (code r)) + 2 < 2 ^ 32"
  shows "emits (code r) (code (call_reg rg r)) (call_bytes rg)"
proof -
  have 1: "emits (code r) (code (code_append 0xff r)) [0xff]"
    using assms emits_code_append [of r "0xff"] by simp
  then have "buffer_ok (code (code_append 0xff r))"
    "unat (position (code (code_append 0xff r))) + 1 < 2 ^ 32"
    using assms by (simp_all add: emits_def)
  then have 2: "emits (code (code_append 0xff r))
                  (code (code_append (0xd0 OR reg rg) (code_append 0xff r)))
                  [ucast (0xd0 OR reg rg :: 32 word)]"
    by (rule emits_code_append)
  from emits_trans [OF 1 2] show ?thesis
    by (simp add: call_reg_def call_bytes_def)
qed

lemma pad_measure_aligned: "\<not> misaligned a r \<Longrightarrow> pad_measure a r = 0"
  by (simp add: misaligned_unat pad_measure_def)

lemma pad_measure_less: "pad_measure a r < BytesPerWord a"
  by (simp add: pad_measure_def BytesPerWord_pos)

lemma alignedMov_pad_aligned: "\<not> misaligned a (alignedMov_pad a r)"
  by (induction a r rule: alignedMov_pad.induct) (subst alignedMov_pad.simps, simp)

lemma pad_measure_exact_step:
  fixes u u' w :: nat
  assumes "u' mod w = (u + 1) mod w" "u mod w \<noteq> 0" "0 < w"
  shows "(w - u mod w) mod w = Suc ((w - u' mod w) mod w)"
proof -
  have lt: "u mod w < w" using assms(3) by simp
  have r: "(w - u mod w) mod w = w - u mod w"
    using assms(2) lt by simp
  show ?thesis
  proof (cases "Suc (u mod w) = w")
    case True
    then have "(u + 1) mod w = 0"
      by (metis Suc_eq_plus1 mod_Suc)
    then show ?thesis using assms r lt True by simp
  next
    case False
    then have e: "(u + 1) mod w = u mod w + 1"
      by (simp add: mod_Suc)
    have "u mod w + 1 < w" using lt False by simp
    then show ?thesis using assms r lt False e by simp
  qed
qed

lemma pad_measure_nop:
  assumes "misaligned a r"
  shows "pad_measure a r = Suc (pad_measure a (nop r))"
proof -
  define k :: "32 word" where "k = (if BytesPerWord a = 8 then 2 else 1)"
  define p where "p = position (code r)"
  have "length_buf (code (nop r)) + k = (p + k) + 1"
    by (simp add: nop_def code_append_def length_buf_def position_append p_def)
  then have "unat (length_buf (code (nop r)) + k) mod BytesPerWord a
               = (unat (p + k) + 1) mod BytesPerWord a"
    by (simp only: unat_succ_mod [OF BytesPerWord_dvd])
  moreover have "unat (p + k) mod BytesPerWord a \<noteq> 0"
    using assms by (simp add: misaligned_unat k_def p_def length_buf_def)
  ultimately show ?thesis
    unfolding pad_measure_def k_def [symmetric]
    using pad_measure_exact_step [OF _ _ BytesPerWord_pos]
    by (simp add: length_buf_def p_def)
qed

lemma emits_alignedMov_pad:
  "buffer_ok (code r) \<Longrightarrow> unat (position (code r)) + pad_measure a r < 2 ^ 32
     \<Longrightarrow> emits (code r) (code (alignedMov_pad a r)) (replicate (pad_measure a r) 0x90)"
proof (induction a r rule: alignedMov_pad.induct)
  case (1 a r)
  show ?case
  proof (cases "misaligned a r")
    case True
    have m: "pad_measure a r = Suc (pad_measure a (nop r))"
      using True by (rule pad_measure_nop)
    have e1: "emits (code r) (code (nop r)) [0x90]"
      using "1.prems" m emits_code_append [of r "0x90"]
      by (simp add: nop_def)
    then have ok: "buffer_ok (code (nop r))"
      and p: "unat (position (code (nop r))) = unat (position (code r)) + 1"
      by (simp_all add: emits_def)
    have "emits (code (nop r)) (code (alignedMov_pad a (nop r)))
            (replicate (pad_measure a (nop r)) 0x90)"
      using True ok
    proof (rule "1.IH")
      show "unat (position (code (nop r))) + pad_measure a (nop r) < 2 ^ 32"
        using "1.prems" m p by simp
    qed
    from emits_trans [OF e1 this] have
      "emits (code r) (code (alignedMov_pad a (nop r))) (replicate (pad_measure a r) 0x90)"
      by (simp add: m)
    then show ?thesis
      using True by (subst alignedMov_pad.simps) simp
  next
    case False
    then show ?thesis
      using "1.prems" by (subst alignedMov_pad.simps) (simp add: pad_measure_aligned emits_refl)
  qed
qed

lemma emits_alignedMov:
  assumes ok: "buffer_ok (code r)"
    and fit: "unat (position (code r)) + 2 * BytesPerWord a + 2 < 2 ^ 32"
  shows "emits (code r) (code (alignedMov a v dst r))
           (replicate (pad_measure a r) 0x90 @ mov_imm_bytes a v dst)"
proof -
  have lt: "pad_measure a r < BytesPerWord a" by (rule pad_measure_less)
  have 1: "emits (code r) (code (alignedMov_pad a r)) (replicate (pad_measure a r) 0x90)"
    using ok fit lt by (intro emits_alignedMov_pad) simp_all
  then have "buffer_ok (code (alignedMov_pad a r))"
    "unat (position (code (alignedMov_pad a r))) + BytesPerWord a + 2 < 2 ^ 32"
    using fit lt by (simp_all add: emits_def)
  then have 2: "emits (code (alignedMov_pad a r))
     (code ((code_append (0xb8 OR reg dst) (rex a (alignedMov_pad a r)))
        \<lparr>code := appendAddress a
            (code (code_append (0xb8 OR reg dst) (rex a (alignedMov_pad a r)))) v\<rparr>))
     (mov_imm_bytes a v dst)"
    by (rule emits_mov_tail)
  from emits_trans [OF 1 2] show ?thesis
    by (simp add: alignedMov_def Let_def)
qed

text \<open>Offset of the immediate field, counted from the start of the code.\<close>

lemma immediate_offset_aligned:
  "unat (length_buf (code (alignedMov a v dst r)) - of_nat (BytesPerWord a)) mod BytesPerWord a = 0"
proof -
  let ?p = "alignedMov_pad a r"
  have "length_buf (code (alignedMov a v dst r))
          = length_buf (code ?p) + (if BytesPerWord a = 8 then 2 else 1) + of_nat (BytesPerWord a)"
    by (simp add: alignedMov_def Let_def length_buf_def position_appendAddress
          code_append_def rex_def position_append)
  then have "length_buf (code (alignedMov a v dst r)) - of_nat (BytesPerWord a)
          = length_buf (code ?p) + (if BytesPerWord a = 8 then 2 else 1)"
    by simp
  moreover have "\<not> misaligned a ?p" by (rule alignedMov_pad_aligned)
  ultimately show ?thesis
    by (simp add: misaligned_unat)
qed

subsection \<open>Call-site patching\<close>

lemma length_copyTo: "buffer_ok b \<Longrightarrow> length (copyTo b) = unat (position b)"
  by (auto simp: buffer_ok_def copyTo_def split: option.splits)

lemma load_bytes_append:
  "load_bytes cm p (m + n) = load_bytes cm p m @ load_bytes cm (p + int m) n"
proof -
  have 1: "[0..<m + n] = [0..<m] @ [m..<m + n]"
    by (rule upt_add_eq_append) simp
  have 2: "[m..<m + n] = map (\<lambda>i. i + m) [0..<n]"
    by (simp only: map_add_upt add.commute [of n m])
  have "map (\<lambda>i. cm (p + int i)) [m..<m + n] = map (\<lambda>i. cm (p + int m + int i)) [0..<n]"
    unfolding 2 by (simp only: map_map o_def of_nat_add add.assoc add.commute [of "int _" "int m"])
  then show ?thesis
    unfolding load_bytes_def 1 by (simp only: map_append)
qed

lemma length_load_bytes [simp]: "length (load_bytes cm p n) = n"
  by (simp add: load_bytes_def)

lemma load_bytes_suffix:
  assumes "load_bytes cm p (length (xs @ ys)) = xs @ ys"
  shows "load_bytes cm (p + int (length xs)) (length ys) = ys"
proof -
  have "load_bytes cm p (length xs) @ load_bytes cm (p + int (length xs)) (length ys) = xs @ ys"
    using assms by (simp add: load_bytes_append)
  then show ?thesis by simp
qed

lemma length_mov_imm_bytes: "length (mov_imm_bytes a v dst) = immediate_index a + BytesPerWord a"
  by (cases a) (simp_all add: mov_imm_bytes_def immediate_index_def)

lemma length_reference_sequence:
  "length (reference_sequence a stub) = immediate_index a + BytesPerWord a + 2"
  by (simp add: reference_sequence_def length_mov_imm_bytes call_bytes_def)

lemma fresh_assembler:
  "buffer_ok (code (Assembler_new sys))" "position (code (Assembler_new sys)) = 0"
  "copyTo (code (Assembler_new sys)) = []"
  by (simp_all add: Assembler_new_def buffer_ok_new copyTo_new) (simp add: Buffer_new_def)

lemma reference_assembler:
  fixes a sys stub
  defines "a1 \<equiv> mov_imm_reg a stub rax (Assembler_new sys)"
  defines "a2 \<equiv> call_reg rax a1"
  shows "copyTo (code a2) = reference_sequence a stub"
    "unat (length_buf (code a2)) = length (reference_sequence a stub)"
    "uint (length_buf (code a1) - of_nat (BytesPerWord a)) = int (immediate_index a)"
proof -
  have 1: "emits (code (Assembler_new sys)) (code a1) (mov_imm_bytes a stub rax)"
    unfolding a1_def
    by (rule emits_mov_imm_reg) (cases a; simp add: fresh_assembler)+
  then have ok1: "buffer_ok (code a1)"
    and p1: "unat (position (code a1)) = immediate_index a + BytesPerWord a"
    by (simp_all add: emits_def fresh_assembler length_mov_imm_bytes)
  have 2: "emits (code a1) (code a2) (call_bytes rax)"
    unfolding a2_def using ok1 p1
    by (intro emits_call_reg) (cases a; simp add: immediate_index_def)+
  from emits_trans [OF 1 2]
  show "copyTo (code a2) = reference_sequence a stub"
    "unat (length_buf (code a2)) = length (reference_sequence a stub)"
    by (simp_all add: emits_def fresh_assembler reference_sequence_def length_buf_def)
  have "unat (position (code a1)) = unat (of_nat (immediate_index a + BytesPerWord a) :: 32 word)"
    using p1 by (cases a) (simp_all add: immediate_index_def)
  then have "position (code a1) = of_nat (immediate_index a) + of_nat (BytesPerWord a)"
    by (simp add: word_unat_eq_iff)
  then show "uint (length_buf (code a1) - of_nat (BytesPerWord a)) = int (immediate_index a)"
    by (cases a) (simp_all add: length_buf_def immediate_index_def)
qed

lemma updateCaller_unfold:
  "updateCaller a sys mem t stub entry cm =
     (let caller = word_index a mem (frame t) 1 - int (length (reference_sequence a stub))
      in if load_bytes cm caller (length (reference_sequence a stub)) = reference_sequence a stub
         then (if (caller + int (immediate_index a)) mod int (BytesPerWord a) = 0
               then Inr (store_bytes cm (caller + int (immediate_index a)) (address_bytes a entry))
               else Inl AssertionFailed)
         else Inr cm)"
  unfolding updateCaller_def Let_def
  by (simp only: reference_assembler uint_nat [of "length_buf (code (call_reg rax (mov_imm_reg a stub rax (Assembler_new sys))))"])

lemma callAlignedAddress_code:
  "code (callAlignedAddress a f c) = code (call_reg rax (alignedMov a f rax c))"
  by (simp add: callAlignedAddress_def)

lemma emits_callAlignedAddress:
  assumes ok: "buffer_ok (code c)"
    and fit: "unat (position (code c)) + 2 * BytesPerWord a + 4 < 2 ^ 32"
  shows "emits (code c) (code (callAlignedAddress a f c))
           (replicate (pad_measure a c) 0x90 @ reference_sequence a f)"
proof -
  have 1: "emits (code c) (code (alignedMov a f rax c))
             (replicate (pad_measure a c) 0x90 @ mov_imm_bytes a f rax)"
    using ok fit by (intro emits_alignedMov) simp_all
  have lt: "pad_measure a c < BytesPerWord a" by (rule pad_measure_less)
  have "buffer_ok (code (alignedMov a f rax c))"
    "unat (position (code (alignedMov a f rax c))) + 2 < 2 ^ 32"
    using 1 fit lt by (cases a; simp add: emits_def length_mov_imm_bytes immediate_index_def)+
  then have 2: "emits (code (alignedMov a f rax c)) (code (call_reg rax (alignedMov a f rax c)))
                  (call_bytes rax)"
    by (rule emits_call_reg)
  from emits_trans [OF 1 2] show ?thesis
    by (simp add: callAlignedAddress_code reference_sequence_def)
qed

lemma call_site_immediate_aligned:
  assumes ok: "buffer_ok (code c)"
    and fit: "unat (position (code c)) + 2 * BytesPerWord a + 4 < 2 ^ 32"
  shows "(length (copyTo (code c)) + pad_measure a c + immediate_index a) mod BytesPerWord a = 0"
proof -
  have lt: "pad_measure a c < BytesPerWord a" by (rule pad_measure_less)
  have 1: "emits (code c) (code (alignedMov_pad a c)) (replicate (pad_measure a c) 0x90)"
    using ok fit lt by (intro emits_alignedMov_pad) simp_all
  then have p: "unat (position (code (alignedMov_pad a c)))
                  = length (copyTo (code c)) + pad_measure a c"
    using ok by (simp add: emits_def length_copyTo)
  have "unat (position (code (alignedMov_pad a c)) + (if BytesPerWord a = 8 then 2 else 1))
          = length (copyTo (code c)) + pad_measure a c + immediate_index a"
    using p fit lt ok
    by (cases a) (simp_all add: unat_word_ariths immediate_index_def length_copyTo)
  moreover have "\<not> misaligned a (alignedMov_pad a c)" by (rule alignedMov_pad_aligned)
  ultimately show ?thesis
    by (simp add: misaligned_unat length_buf_def)
qed

lemma load_bytes_place: "load_bytes (place base bytes) base (length bytes) = bytes"
  by (rule nth_equalityI) (simp_all add: load_bytes_def place_def)

text \<open>
  After \<open>alignedMov\<close> the immediate field, the last machine word of the
  code, starts at an offset that is a multiple of the word size.  On a
  consistent buffer below \<open>2^32\<close> bytes the bytes appended are \<open>nop\<close>s (fewer
  than one word of them) followed by exactly the bytes of the plain \<open>mov\<close>.
  \<open>updateCaller\<close> leaves code memory as it is when the bytes before the return
  address differ from the reference sequence.  For a call site emitted by
  \<open>callAlignedAddress\<close> with the stub's address, loaded at a base address that
  is itself word-aligned and returned to from the frame, \<open>updateCaller\<close> writes
  the new entry over the immediate field, at a word-aligned address.
\<close>

lemma call_site_patch_at_aligned_base:
  "unat (length_buf (code (alignedMov a v dst r)) - of_nat (BytesPerWord a)) mod BytesPerWord a = 0
   \<and> (buffer_ok (code r) \<and> unat (position (code r)) + 2 * BytesPerWord a + 4 < 2 ^ 32
        \<longrightarrow> copyTo (code (alignedMov a v dst r))
              = copyTo (code r) @ replicate (pad_measure a r) 0x90 @ mov_imm_bytes a v dst
            \<and> (length (copyTo (code r)) + pad_measure a r + immediate_index a)
                 mod BytesPerWord a = 0)
   \<and> (load_bytes cm (word_index a mem (frame t) 1 - int (length (reference_sequence a stub)))
          (length (reference_sequence a stub)) \<noteq> reference_sequence a stub
        \<longrightarrow> updateCaller a sys mem t stub entry cm = Inr cm)
   \<and> (buffer_ok (code c) \<and> unat (position (code c)) + 2 * BytesPerWord a + 4 < 2 ^ 32
        \<and> load_bytes cm base (length (copyTo (code (callAlignedAddress a stub c))))
             = copyTo (code (callAlignedAddress a stub c))
        \<and> word_index a mem (frame t) 1
             = base + int (length (copyTo (code (callAlignedAddress a stub c))))
        \<and> base mod int (BytesPerWord a) = 0
        \<longrightarrow> updateCaller a sys mem t stub entry cm
              = Inr (store_bytes cm
                       (base + int (length (copyTo (code c)) + pad_measure a c + immediate_index a))
                       (address_bytes a entry))
            \<and> (base + int (length (copyTo (code c)) + pad_measure a c + immediate_index a))
                 mod int (BytesPerWord a) = 0)"
proof (intro conjI)
  show "unat (length_buf (code (alignedMov a v dst r)) - of_nat (BytesPerWord a))
          mod BytesPerWord a = 0"
    by (rule immediate_offset_aligned)
  show "buffer_ok (code r) \<and> unat (position (code r)) + 2 * BytesPerWord a + 4 < 2 ^ 32
        \<longrightarrow> copyTo (code (alignedMov a v dst r))
              = copyTo (code r) @ replicate (pad_measure a r) 0x90 @ mov_imm_bytes a v dst
            \<and> (length (copyTo (code r)) + pad_measure a r + immediate_index a)
                 mod BytesPerWord a = 0"
  proof (intro impI conjI)
    assume h: "buffer_ok (code r) \<and> unat (position (code r)) + 2 * BytesPerWord a + 4 < 2 ^ 32"
    then have "emits (code r) (code (alignedMov a v dst r))
           (replicate (pad_measure a r) 0x90 @ mov_imm_bytes a v dst)"
      by (intro emits_alignedMov) simp_all
    then show "copyTo (code (alignedMov a v dst r))
              = copyTo (code r) @ replicate (pad_measure a r) 0x90 @ mov_imm_bytes a v dst"
      by (simp add: emits_def)
    show "(length (copyTo (code r)) + pad_measure a r + immediate_index a) mod BytesPerWord a = 0"
      using h by (intro call_site_immediate_aligned) simp_all
  qed
  show "load_bytes cm (word_index a mem (frame t) 1 - int (length (reference_sequence a stub)))
          (length (reference_sequence a stub)) \<noteq> reference_sequence a stub
        \<longrightarrow> updateCaller a sys mem t stub entry cm = Inr cm"
    by (simp add: updateCaller_unfold Let_def)
  show "buffer_ok (code c) \<and> unat (position (code c)) + 2 * BytesPerWord a + 4 < 2 ^ 32
        \<and> load_bytes cm base (length (copyTo (code (callAlignedAddress a stub c))))
             = copyTo (code (callAlignedAddress a stub c))
        \<and> word_index a mem (frame t) 1
             = base + int (length (copyTo (code (callAlignedAddress a stub c))))
        \<and> base mod int (BytesPerWord a) = 0
        \<longrightarrow> updateCaller a sys mem t stub entry cm
              = Inr (store_bytes cm
                       (base + int (length (copyTo (code c)) + pad_measure a c + immediate_index a))
                       (address_bytes a entry))
            \<and> (base + int (length (copyTo (code c)) + pad_measure a c + immediate_index a))
                 mod int (BytesPerWord a) = 0"
  proof (rule impI)
    assume h: "buffer_ok (code c) \<and> unat (position (code c)) + 2 * BytesPerWord a + 4 < 2 ^ 32
        \<and> load_bytes cm base (length (copyTo (code (callAlignedAddress a stub c))))
             = copyTo (code (callAlignedAddress a stub c))
        \<and> word_index a mem (frame t) 1
             = base + int (length (copyTo (code (callAlignedAddress a stub c))))
        \<and> base mod int (BytesPerWord a) = 0"
    let ?pre = "copyTo (code c) @ replicate (pad_measure a c) 0x90"
    let ?ref = "reference_sequence a stub"
    let ?site = "copyTo (code (callAlignedAddress a stub c))"
    let ?k = "length (copyTo (code c)) + pad_measure a c + immediate_index a"
    have "emits (code c) (code (callAlignedAddress a stub c))
            (replicate (pad_measure a c) 0x90 @ ?ref)"
      using h by (intro emits_callAlignedAddress) simp_all
    then have site: "?site = ?pre @ ?ref"
      by (simp add: emits_def)
    have "load_bytes cm base (length (?pre @ ?ref)) = ?pre @ ?ref"
      using h site by simp
    then have lb: "load_bytes cm (base + int (length ?pre)) (length ?ref) = ?ref"
      by (rule load_bytes_suffix)
    have caller: "word_index a mem (frame t) 1 - int (length ?ref) = base + int (length ?pre)"
      using h site by simp
    have al: "?k mod BytesPerWord a = 0"
      using h by (intro call_site_immediate_aligned) simp_all
    have al': "(base + int ?k) mod int (BytesPerWord a) = 0"
    proof -
      have "int (BytesPerWord a) dvd int ?k"
        using al by (simp only: int_dvd_int_iff mod_eq_0_iff_dvd)
      moreover have "int (BytesPerWord a) dvd base"
        using h by (simp only: mod_eq_0_iff_dvd)
      ultimately have "int (BytesPerWord a) dvd base + int ?k"
        by (rule dvd_add [rotated])
      then show ?thesis
        by (simp only: mod_eq_0_iff_dvd)
    qed
    have eq: "base + int (length ?pre) + int (immediate_index a) = base + int ?k"
      by simp
    have "updateCaller a sys mem t stub entry cm
            = Inr (store_bytes cm (base + int ?k) (address_bytes a entry))"
      by (simp only: updateCaller_unfold Let_def caller lb eq al' if_True simp_thms)
    with al' show "updateCaller a sys mem t stub entry cm
              = Inr (store_bytes cm (base + int ?k) (address_bytes a entry))
            \<and> (base + int ?k) mod int (BytesPerWord a) = 0"
      by blast
  qed
qed

lemma empty_code_memory_differs: "load_bytes empty_code_memory
         (word_index X86_32 demo_stack (frame demo_thread) 1
            - int (length (reference_sequence X86_32 demo_stub)))
         (length (reference_sequence X86_32 demo_stub)) \<noteq> reference_sequence X86_32 demo_stub"
proof -
  have "hd (load_bytes empty_code_memory
         (word_index X86_32 demo_stack (frame demo_thread) 1
            - int (length (reference_sequence X86_32 demo_stub)))
         (length (reference_sequence X86_32 demo_stub))) = 0"
    by (simp add: load_bytes_def empty_code_memory_def length_reference_sequence
          immediate_index_def hd_map upt_rec [of 0])
  moreover have "hd (reference_sequence X86_32 demo_stub) = 0xb8"
    by (simp add: reference_sequence_def mov_imm_bytes_def)
  ultimately show ?thesis by auto
qed

lemma pad_measure_fresh: "pad_measure X86_32 (Compiler_new zero_memory) = 3"
  by (simp add: pad_measure_def length_buf_def Compiler_new_def Buffer_new_def)

lemma fresh_compiler:
  "buffer_ok (code (Compiler_new sys))" "position (code (Compiler_new sys)) = 0"
  "copyTo (code (Compiler_new sys)) = []"
  by (simp_all add: Compiler_new_def buffer_ok_new copyTo_new) (simp add: Buffer_new_def)

lemma length_demo_call_site: "length demo_call_site = 10"
proof -
  have "emits (code (Compiler_new zero_memory))
          (code (callAlignedAddress X86_32 demo_stub (Compiler_new zero_memory)))
          (replicate (pad_measure X86_32 (Compiler_new zero_memory)) 0x90
             @ reference_sequence X86_32 demo_stub)"
    by (rule emits_callAlignedAddress) (simp_all add: fresh_compiler)
  then show ?thesis
    by (simp add: emits_def demo_call_site_def fresh_compiler pad_measure_fresh
          length_reference_sequence immediate_index_def)
qed

lemma call_site_patch_X86_32_example:
  "buffer_ok (code (Compiler_new zero_memory))
   \<and> unat (position (code (Compiler_new zero_memory))) + 2 * BytesPerWord X86_32 + 4 < 2 ^ 32
   \<and> load_bytes demo_code_memory 4096 (length demo_call_site) = demo_call_site
   \<and> word_index X86_32 demo_stack (frame demo_thread) 1 = 4096 + int (length demo_call_site)
   \<and> (4096 :: int) mod int (BytesPerWord X86_32) = 0
   \<and> updateCaller X86_32 zero_memory demo_stack demo_thread demo_stub demo_entry demo_code_memory
       = Inr (store_bytes demo_code_memory 4100 (address_bytes X86_32 demo_entry))
   \<and> copyTo (code (alignedMov X86_32 demo_stub rax (Compiler_new zero_memory)))
       = [0x90, 0x90, 0x90, 0xb8, 0x00, 0x10, 0x00, 0x00]
   \<and> load_bytes empty_code_memory
         (word_index X86_32 demo_stack (frame demo_thread) 1
            - int (length (reference_sequence X86_32 demo_stub)))
         (length (reference_sequence X86_32 demo_stub)) \<noteq> reference_sequence X86_32 demo_stub
   \<and> updateCaller X86_32 zero_memory demo_stack demo_thread demo_stub demo_entry empty_code_memory
       = Inr empty_code_memory"
proof -
  note inst = call_site_patch_at_aligned_base
         [of X86_32 demo_stub rax "Compiler_new zero_memory" _ demo_stack
             demo_thread demo_stub zero_memory demo_entry "Compiler_new zero_memory" 4096]
  have h1: "buffer_ok (code (Compiler_new zero_memory))"
    and h1': "unat (position (code (Compiler_new zero_memory))) + 2 * BytesPerWord X86_32 + 4 < 2 ^ 32"
    by (simp_all add: fresh_compiler)
  have h2: "load_bytes demo_code_memory 4096 (length demo_call_site) = demo_call_site"
    unfolding demo_code_memory_def by (rule load_bytes_place)
  have h3: "word_index X86_32 demo_stack (frame demo_thread) 1 = 4096 + int (length demo_call_site)"
    by (simp add: word_index_def demo_stack_def length_demo_call_site)
  have h4: "(4096 :: int) mod int (BytesPerWord X86_32) = 0"
    by simp
  note h5 = empty_code_memory_differs
  have mb: "mov_imm_bytes X86_32 demo_stub rax = [0xb8, 0x00, 0x10, 0x00, 0x00]"
    by (simp add: mov_imm_bytes_def address_bytes_def bytes4_def demo_stub_def)
  have rp: "replicate 3 (0x90 :: 8 word) = [0x90, 0x90, 0x90]"
    by (simp add: numeral_3_eq_3)
  have a: "copyTo (code (alignedMov X86_32 demo_stub rax (Compiler_new zero_memory)))
             = [0x90, 0x90, 0x90, 0xb8, 0x00, 0x10, 0x00, 0x00]"
    using inst [THEN conjunct2, THEN conjunct1, rule_format, OF conjI [OF h1 h1'], THEN conjunct1]
    by (simp only: fresh_compiler pad_measure_fresh mb rp append_Nil append_Cons)
  have b: "updateCaller X86_32 zero_memory demo_stack demo_thread demo_stub demo_entry
              empty_code_memory = Inr empty_code_memory"
    using h5 by (rule inst [THEN conjunct2, THEN conjunct2, THEN conjunct1, rule_format])
  have k: "4096 + int (length (copyTo (code (Compiler_new zero_memory)))
              + pad_measure X86_32 (Compiler_new zero_memory) + immediate_index X86_32) = 4100"
    by (simp add: fresh_compiler pad_measure_fresh immediate_index_def)
  have c: "updateCaller X86_32 zero_memory demo_stack demo_thread demo_stub demo_entry
             demo_code_memory
           = Inr (store_bytes demo_code_memory 4100 (address_bytes X86_32 demo_entry))"
    using inst [THEN conjunct2, THEN conjunct2, THEN conjunct2, rule_format,
               OF conjI [OF h1 conjI [OF h1' conjI [OF h2 [unfolded demo_call_site_def]
                    conjI [OF h3 [unfolded demo_call_site_def] h4]]]], THEN conjunct1]
    by (simp only: k)
  from h1 h1' h2 h3 h4 h5 a b c show ?thesis
    by (intro conjI)
qed

text \<open>What \<open>updateCaller\<close> does at a call site emitted by \<open>callAlignedAddress\<close>,
  whatever the base address of the code.\<close>

lemma updateCaller_call_site:
  assumes ok: "buffer_ok (code c)"
    and fit: "unat (position (code c)) + 2 * BytesPerWord a + 4 < 2 ^ 32"
    and loaded: "load_bytes cm base (length (copyTo (code (callAlignedAddress a stub c))))
             = copyTo (code (callAlignedAddress a stub c))"
    and ret: "word_index a mem (frame t) 1
             = base + int (length (copyTo (code (callAlignedAddress a stub c))))"
  shows "updateCaller a sys mem t stub entry cm
           = (if (base + int (length (copyTo (code c)) + pad_measure a c + immediate_index a))
                   mod int (BytesPerWord a) = 0
              then Inr (store_bytes cm
                       (base + int (length (copyTo (code c)) + pad_measure a c + immediate_index a))
                       (address_bytes a entry))
              else Inl AssertionFailed)"
proof -
  let ?pre = "copyTo (code c) @ replicate (pad_measure a c) 0x90"
  let ?ref = "reference_sequence a stub"
  let ?site = "copyTo (code (callAlignedAddress a stub c))"
  let ?k = "length (copyTo (code c)) + pad_measure a c + immediate_index a"
  have "emits (code c) (code (callAlignedAddress a stub c))
          (replicate (pad_measure a c) 0x90 @ ?ref)"
    using ok fit by (intro emits_callAlignedAddress) simp_all
  then have site: "?site = ?pre @ ?ref"
    by (simp add: emits_def)
  have "load_bytes cm base (length (?pre @ ?ref)) = ?pre @ ?ref"
    using loaded site by simp
  then have lb: "load_bytes cm (base + int (length ?pre)) (length ?ref) = ?ref"
    by (rule load_bytes_suffix)
  have caller: "word_index a mem (frame t) 1 - int (length ?ref) = base + int (length ?pre)"
    using ret site by simp
  have eq: "base + int (length ?pre) + int (immediate_index a) = base + int ?k"
    by simp
  show ?thesis
    by (simp only: updateCaller_unfold Let_def caller lb eq if_True simp_thms)
qed

text \<open>With 4-byte words the body of a \<open>Code\<close> is as aligned as its allocation.\<close>

lemma Code_code_aligned_X86_32:
  "allocation mod 4 = 0 \<Longrightarrow> Code_code allocation mod int (BytesPerWord X86_32) = 0"
  unfolding Code_code_def Code_header_def by simp presburger

text \<open>
  C10.  \<open>alignedMov\<close> pads so that the immediate field of the load starts at
  a multiple of the word size counted from the start of the code buffer.  The
  finished code, however, is copied to \<open>Code::body\<close>, 12 bytes into its
  allocation.  On X86_64, for a call site emitted by \<open>callAlignedAddress\<close> with
  the stub's address into a consistent buffer, whose code lies at the body of
  a \<open>Code\<close> allocated at a multiple of 8 and which the frame returns to: the
  address of the immediate field is 4 modulo 8, not word-aligned, and
  \<open>updateCaller\<close>, having matched the reference sequence, fails its own
  assertion instead of writing the field.
\<close>

theorem updateCaller_patch_site_misaligned:
  "buffer_ok (code c) \<and> unat (position (code c)) + 2 * BytesPerWord X86_64 + 4 < 2 ^ 32
   \<and> allocation mod 8 = 0
   \<and> load_bytes cm (Code_code allocation)
        (length (copyTo (code (callAlignedAddress X86_64 stub c))))
        = copyTo (code (callAlignedAddress X86_64 stub c))
   \<and> word_index X86_64 mem (frame t) 1
        = Code_code allocation + int (length (copyTo (code (callAlignedAddress X86_64 stub c))))
   \<longrightarrow> (length (copyTo (code c)) + pad_measure X86_64 c + immediate_index X86_64)
         mod BytesPerWord X86_64 = 0
       \<and> (Code_code allocation
            + int (length (copyTo (code c)) + pad_measure X86_64 c + immediate_index X86_64))
           mod int (BytesPerWord X86_64) = 4
       \<and> updateCaller X86_64 sys mem t stub entry cm = Inl AssertionFailed"
proof (rule impI)
  let ?k = "length (copyTo (code c)) + pad_measure X86_64 c + immediate_index X86_64"
  assume h: "buffer_ok (code c) \<and> unat (position (code c)) + 2 * BytesPerWord X86_64 + 4 < 2 ^ 32
   \<and> allocation mod 8 = 0
   \<and> load_bytes cm (Code_code allocation)
        (length (copyTo (code (callAlignedAddress X86_64 stub c))))
        = copyTo (code (callAlignedAddress X86_64 stub c))
   \<and> word_index X86_64 mem (frame t) 1
        = Code_code allocation + int (length (copyTo (code (callAlignedAddress X86_64 stub c))))"
  have al: "?k mod BytesPerWord X86_64 = 0"
    using h by (intro call_site_immediate_aligned) simp_all
  define k where "k = ?k"
  have k8: "k mod 8 = 0"
    using al unfolding k_def by simp
  have a8: "allocation mod 8 = 0" using h by (rule conjunct2 [THEN conjunct2, THEN conjunct1])
  have "(allocation + 12 + int k) mod 8 = 4"
    using k8 a8 by presburger
  then have mis: "(Code_code allocation + int ?k) mod int (BytesPerWord X86_64) = 4"
    unfolding Code_code_def Code_header_def k_def by simp
  have "updateCaller X86_64 sys mem t stub entry cm
          = (if (Code_code allocation + int ?k) mod int (BytesPerWord X86_64) = 0
             then Inr (store_bytes cm (Code_code allocation + int ?k) (address_bytes X86_64 entry))
             else Inl AssertionFailed)"
    using h by (intro updateCaller_call_site) simp_all
  then have "updateCaller X86_64 sys mem t stub entry cm = Inl AssertionFailed"
    by (simp only: mis) simp
  with al mis show "?k mod BytesPerWord X86_64 = 0
       \<and> (Code_code allocation + int ?k) mod int (BytesPerWord X86_64) = 4
       \<and> updateCaller X86_64 sys mem t stub entry cm = Inl AssertionFailed"
    by (intro conjI)
qed

text \<open>A call site compiled into a fresh compiler on X86_64, in a \<open>Code\<close>
  allocated at 4096: six \<open>nop\<close>s, the ten bytes of the \<open>mov\<close>, the two of the
  \<open>call\<close>; the immediate is at offset 8 of the body, address 4116.\<close>

lemma pad_measure_fresh_64: "pad_measure X86_64 (Compiler_new zero_memory) = 6"
  by (simp add: pad_measure_def length_buf_def Compiler_new_def Buffer_new_def)

lemma length_demo_call_site_64: "length demo_call_site_64 = 18"
proof -
  have "emits (code (Compiler_new zero_memory))
          (code (callAlignedAddress X86_64 demo_stub (Compiler_new zero_memory)))
          (replicate (pad_measure X86_64 (Compiler_new zero_memory)) 0x90
             @ reference_sequence X86_64 demo_stub)"
    by (rule emits_callAlignedAddress) (simp_all add: fresh_compiler)
  then show ?thesis
    by (simp add: emits_def demo_call_site_64_def fresh_compiler pad_measure_fresh_64
          length_reference_sequence immediate_index_def)
qed

theorem updateCaller_patch_site_misaligned_witness:
  "buffer_ok (code (Compiler_new zero_memory))
   \<and> unat (position (code (Compiler_new zero_memory))) + 2 * BytesPerWord X86_64 + 4 < 2 ^ 32
   \<and> demo_allocation mod 8 = 0
   \<and> load_bytes demo_code_memory_64 (Code_code demo_allocation) (length demo_call_site_64)
        = demo_call_site_64
   \<and> word_index X86_64 demo_stack_64 (frame demo_thread) 1
        = Code_code demo_allocation + int (length demo_call_site_64)
   \<and> Code_code demo_allocation = 4108
   \<and> length (copyTo (code (Compiler_new zero_memory)))
        + pad_measure X86_64 (Compiler_new zero_memory) + immediate_index X86_64 = 8
   \<and> updateCaller X86_64 zero_memory demo_stack_64 demo_thread demo_stub demo_entry
        demo_code_memory_64 = Inl AssertionFailed"
proof -
  have h1: "buffer_ok (code (Compiler_new zero_memory))"
    and h1': "unat (position (code (Compiler_new zero_memory))) + 2 * BytesPerWord X86_64 + 4 < 2 ^ 32"
    by (simp_all add: fresh_compiler)
  have h2: "demo_allocation mod 8 = 0"
    by (simp add: demo_allocation_def)
  have h3: "load_bytes demo_code_memory_64 (Code_code demo_allocation) (length demo_call_site_64)
        = demo_call_site_64"
    unfolding demo_code_memory_64_def by (rule load_bytes_place)
  have h4: "word_index X86_64 demo_stack_64 (frame demo_thread) 1
        = Code_code demo_allocation + int (length demo_call_site_64)"
    by (simp add: word_index_def demo_stack_64_def length_demo_call_site_64 Code_code_def
          Code_header_def demo_allocation_def)
  have b: "Code_code demo_allocation = 4108"
    by (simp add: Code_code_def Code_header_def demo_allocation_def)
  have k: "length (copyTo (code (Compiler_new zero_memory)))
        + pad_measure X86_64 (Compiler_new zero_memory) + immediate_index X86_64 = 8"
    by (simp add: fresh_compiler pad_measure_fresh_64 immediate_index_def)
  have c: "updateCaller X86_64 zero_memory demo_stack_64 demo_thread demo_stub demo_entry
        demo_code_memory_64 = Inl AssertionFailed"
    using updateCaller_patch_site_misaligned
            [of "Compiler_new zero_memory" demo_allocation demo_code_memory_64 demo_stub
                demo_stack_64 demo_thread zero_memory demo_entry, rule_format,
             OF conjI [OF h1 conjI [OF h1' conjI [OF h2 conjI [OF h3 [unfolded demo_call_site_64_def]
                    h4 [unfolded demo_call_site_64_def]]]]], THEN conjunct2, THEN conjunct2] .
  from h1 h1' h2 h3 h4 b k c show ?thesis
    by (intro conjI)
qed

subsection \<open>The bytecode-ip to machine-ip map\<close>

lemma concat_blocks_length:
  "(\<And>x. length (f x) = k) \<Longrightarrow> length (concat (map f xs)) = k * length xs"
  by (induction xs) simp_all

lemma concat_blocks_nth:
  assumes "\<And>x. length (f x) = k" "i < length xs"
  shows "take k (drop (i * k) (concat (map f xs))) = f (xs ! i)"
  using assms(2)
proof (induction xs arbitrary: i)
  case Nil
  then show ?case by simp
next
  case (Cons x xs)
  show ?case
  proof (cases i)
    case 0
    then show ?thesis using assms(1) [of x] by simp
  next
    case (Suc j)
    then have "j < length xs" using Cons.prems by simp
    from Cons.IH [OF this] Suc assms(1) [of x] show ?thesis
      by simp
  qed
qed

lemma read_bytes_contents:
  assumes ok: "buffer_ok b" and fit: "off + n \<le> unat (position b)" and pos: "0 < n"
  shows "read_bytes b (of_nat off) n = Inr (take n (drop off (copyTo b)))"
proof -
  have lt: "unat (position b) < 2 ^ 32" using unsigned_less [of "position b"] by simp
  have o: "unat (of_nat off :: 32 word) = off" "unat (of_nat n :: 32 word) = n"
    using fit lt by (simp_all add: unat_of_nat)
  have "unat (of_nat off + of_nat n :: 32 word) = off + n"
    using fit lt o by (simp add: unat_word_ariths)
  then have le: "(of_nat off + of_nat n :: 32 word) \<le> position b"
    using fit by (simp add: word_le_nat_alt)
  show ?thesis
  proof (cases "data b")
    case None
    then have "position b = 0" using ok by (simp add: buffer_ok_def)
    then have "n = 0" using fit by simp
    then show ?thesis using pos by simp
  next
    case (Some d)
    then have "unat (position b) \<le> length d" using ok by (simp add: buffer_ok_def)
    then show ?thesis
      using Some le fit o
      by (simp add: read_bytes_def copyTo_def drop_take min_def)
  qed
qed

lemma get2_javaIPs:
  assumes ok: "buffer_ok b" and img: "copyTo b = javaIPs_image tr" and i: "i < length tr"
  shows "get2 b (of_nat (i * 2)) = Inr (of_nat (fst (tr ! i)))"
proof -
  have len: "unat (position b) = 2 * length tr"
    using length_copyTo [OF ok] img
    by (simp add: javaIPs_image_def concat_blocks_length [where k = 2])
  have "read_bytes b (of_nat (i * 2)) 2 = Inr (take 2 (drop (i * 2) (copyTo b)))"
    using ok i len by (intro read_bytes_contents) simp_all
  also have "take 2 (drop (i * 2) (copyTo b)) = bytes2 (of_nat (fst (tr ! i)))"
    unfolding img javaIPs_image_def using i
    by (intro concat_blocks_nth) simp_all
  finally show ?thesis
    by (simp add: get2_def word2_bytes2)
qed

lemma get4_machineIPs:
  assumes ok: "buffer_ok b" and img: "copyTo b = machineIPs_image tr" and i: "i < length tr"
  shows "get4 b (of_nat (i * 4)) = Inr (snd (tr ! i))"
proof -
  have len: "unat (position b) = 4 * length tr"
    using length_copyTo [OF ok] img
    by (simp add: machineIPs_image_def concat_blocks_length [where k = 4])
  have "read_bytes b (of_nat (i * 4)) 4 = Inr (take 4 (drop (i * 4) (copyTo b)))"
    using ok i len by (intro read_bytes_contents) simp_all
  also have "take 4 (drop (i * 4) (copyTo b)) = bytes4 (snd (tr ! i))"
    unfolding img machineIPs_image_def using i
    by (intro concat_blocks_nth) simp_all
  finally show ?thesis
    by (simp add: get4_def word4_bytes4)
qed

lemma of_nat_16_less:
  "a < 2 ^ 16 \<Longrightarrow> b < 2 ^ 16 \<Longrightarrow> ((of_nat a :: 16 word) < of_nat b) = (a < b)"
  by (simp add: word_less_nat_alt unat_of_nat)

lemma of_nat_16_eq:
  "a < 2 ^ 16 \<Longrightarrow> b < 2 ^ 16 \<Longrightarrow> ((of_nat a :: 16 word) = of_nat b) = (a = b)"
  by (simp add: word_unat_eq_iff unat_of_nat)

lemma search_finds:
  assumes okj: "buffer_ok (javaIPs c)" and imj: "copyTo (javaIPs c) = javaIPs_image tr"
    and okm: "buffer_ok (machineIPs c)" and imm: "copyTo (machineIPs c) = machineIPs_image tr"
    and inc: "sorted_wrt (<) (map fst tr)" and small: "\<forall>e \<in> set tr. fst e < 2 ^ 16"
    and i: "i < length tr"
  shows "lo \<le> i \<Longrightarrow> i < hi \<Longrightarrow> hi \<le> length tr \<Longrightarrow>
         machineIpForJavaIp_loop c (of_nat (fst (tr ! i))) lo hi = Inr (snd (tr ! i))"
proof (induction "hi - lo" arbitrary: lo hi rule: less_induct)
  case less
  define middle where "middle = lo + (hi - lo) div 2"
  have m: "lo \<le> middle" "middle < hi" "middle < length tr"
    using less.prems by (simp_all add: middle_def)
  have g: "get2 (javaIPs c) (of_nat (middle * 2)) = Inr (of_nat (fst (tr ! middle)))"
    using okj imj m(3) by (rule get2_javaIPs)
  have bi: "fst (tr ! i) < 2 ^ 16" "fst (tr ! middle) < 2 ^ 16"
    using small i m(3) by (simp_all add: nth_mem)
  have mono: "\<And>x y. x < y \<Longrightarrow> y < length tr \<Longrightarrow> fst (tr ! x) < fst (tr ! y)"
    using inc by (simp add: sorted_wrt_iff_nth_less)
  have span: "hi - lo \<noteq> 0" using less.prems by simp
  let ?key = "of_nat (fst (tr ! i)) :: 16 word"
  let ?k = "of_nat (fst (tr ! middle)) :: 16 word"
  have step: "machineIpForJavaIp_loop c ?key lo hi =
      (if ?key < ?k then machineIpForJavaIp_loop c ?key lo middle
       else if ?key > ?k then machineIpForJavaIp_loop c ?key (middle + 1) hi
       else get4 (machineIPs c) (of_nat (middle * 4)))"
    by (subst machineIpForJavaIp_loop.simps)
       (simp only: Let_def middle_def [symmetric] if_P [OF span] g sum.case)
  consider "i < middle" | "middle < i" | "i = middle" by linarith
  then show ?case
  proof cases
    case 1
    then have "fst (tr ! i) < fst (tr ! middle)" using mono m(3) by simp
    then have "?key < ?k" using bi by (simp add: of_nat_16_less)
    moreover have "machineIpForJavaIp_loop c ?key lo middle = Inr (snd (tr ! i))"
      using 1 less.prems m by (intro less.hyps) simp_all
    ultimately show ?thesis
      by (simp only: step if_True)
  next
    case 2
    then have lt: "fst (tr ! middle) < fst (tr ! i)" using mono i by simp
    then have "?k < ?key" "\<not> ?key < ?k" using bi by (simp_all add: of_nat_16_less)
    moreover have "machineIpForJavaIp_loop c ?key (middle + 1) hi = Inr (snd (tr ! i))"
      using 2 less.prems m by (intro less.hyps) simp_all
    ultimately show ?thesis
      by (simp only: step if_True if_False)
  next
    case 3
    have g4: "get4 (machineIPs c) (of_nat (middle * 4)) = Inr (snd (tr ! middle))"
      using okm imm m(3) by (rule get4_machineIPs)
    have e: "?key = ?k" using 3 by simp
    have "machineIpForJavaIp_loop c ?key lo hi = get4 (machineIPs c) (of_nat (middle * 4))"
      by (subst step) (simp only: e less_irrefl if_False)
    also note g4
    finally show ?thesis using 3 by simp
  qed
qed

lemma record_ips_fields:
  "javaIPs (record_ips ip c) = append2 (javaIPs c) (of_nat ip)"
  "machineIPs (record_ips ip c) = append4 (machineIPs c) (length_buf (code c))"
  "code (record_ips ip c) = code c"
  by (simp_all add: record_ips_def Let_def)

lemma javaIPs_image_snoc:
  "javaIPs_image (pre @ [(ip, m)]) = javaIPs_image pre @ bytes2 (of_nat ip)"
  by (simp add: javaIPs_image_def)

lemma machineIPs_image_snoc:
  "machineIPs_image (pre @ [(ip, m)]) = machineIPs_image pre @ bytes4 m"
  by (simp add: machineIPs_image_def)

lemma length_javaIPs_image: "length (javaIPs_image tr) = 2 * length tr"
  by (simp add: javaIPs_image_def concat_blocks_length [where k = 2])

lemma length_machineIPs_image: "length (machineIPs_image tr) = 4 * length tr"
  by (simp add: machineIPs_image_def concat_blocks_length [where k = 4])

lemma maps_hold_record_ips:
  assumes "maps_hold c pre" "length pre < 2 ^ 16"
  shows "maps_hold (record_ips ip c) (pre @ [(ip, length_buf (code c))])"
proof -
  have j: "unat (position (javaIPs c)) = 2 * length pre"
    and m: "unat (position (machineIPs c)) = 4 * length pre"
    using assms(1) length_copyTo [of "javaIPs c"] length_copyTo [of "machineIPs c"]
    by (simp_all add: maps_hold_def length_javaIPs_image length_machineIPs_image)
  have "unat (position (javaIPs c)) + 2 < 2 ^ 32" "unat (position (machineIPs c)) + 4 < 2 ^ 32"
    using assms(2) j m by simp_all
  then show ?thesis
    using assms(1)
    by (simp add: maps_hold_def record_ips_fields append2_contents append4_contents
          javaIPs_image_snoc machineIPs_image_snoc)
qed


lemma compile_loop_maps:
  "template_frame K body \<Longrightarrow> codeLength \<le> 2 ^ 16 \<Longrightarrow> P + K * codeLength < 2 ^ 32
         \<Longrightarrow> compile_loop body codeLength ip c = Inr c' \<Longrightarrow> maps_hold c pre
         \<Longrightarrow> length pre \<le> ip \<Longrightarrow> unat (length_buf (code c)) \<le> P + K * length pre
         \<Longrightarrow> maps_hold c' (pre @ compile_trace body codeLength ip c)
             \<and> (\<forall>e \<in> set (compile_trace body codeLength ip c).
                    ip \<le> fst e \<and> fst e < codeLength
                    \<and> unat (length_buf (code c)) \<le> unat (snd e)
                    \<and> unat (snd e) < unat (length_buf (code c')))
             \<and> sorted_wrt (<) (map fst (compile_trace body codeLength ip c))
             \<and> sorted_wrt (<) (map (\<lambda>e. unat (snd e)) (compile_trace body codeLength ip c))
             \<and> unat (length_buf (code c)) \<le> unat (length_buf (code c'))"
proof (induction body codeLength ip c arbitrary: pre rule: compile_loop.induct)
  case (1 body codeLength ip c)
  note fr = "1.prems"(1) and small = "1.prems"(2) and room = "1.prems"(3)
    and run = "1.prems"(4) and mh = "1.prems"(5) and lpre = "1.prems"(6) and lcode = "1.prems"(7)
  show ?case
  proof (cases "ip < codeLength")
    case False
    then have "c' = c" using run by (subst (asm) compile_loop.simps) simp
    moreover have "compile_trace body codeLength ip c = []"
      using False by (subst compile_trace.simps) simp
    ultimately show ?thesis using mh by simp
  next
    case True
    let ?c1 = "record_ips ip c"
    let ?len = "length_buf (code c)"
    from run True obtain n c2 where b: "body ip ?c1 = Inr (n, c2)"
      and l: "compile_loop body codeLength (ip + 1 + n) c2 = Inr c'"
      by (subst (asm) compile_loop.simps) (auto split: sum.splits)
    have tr: "compile_trace body codeLength ip c
                = (ip, ?len) # compile_trace body codeLength (ip + 1 + n) c2"
      using True b by (subst compile_trace.simps) simp
    have lp: "length pre < 2 ^ 16" using lpre True small by simp
    let ?pre = "pre @ [(ip, ?len)]"
    have mh1: "maps_hold ?c1 ?pre"
      using mh lp by (rule maps_hold_record_ips)
    from fr b obtain k where k: "1 \<le> k" "k \<le> K" "length_buf (code c2) = ?len + of_nat k"
      and same: "javaIPs c2 = javaIPs ?c1" "machineIPs c2 = machineIPs ?c1"
      unfolding template_frame_def by (metis record_ips_fields(3))
    have mh2: "maps_hold c2 ?pre"
      using mh1 same by (simp add: maps_hold_def)
    have "K * (length pre + 1) \<le> K * codeLength"
      using lpre True by (intro mult_le_mono2) simp
    then have bound: "unat ?len + k < 2 ^ 32"
      using lcode k(2) room by simp
    then have len2: "unat (length_buf (code c2)) = unat ?len + k"
      by (simp add: k(3) unat_word_ariths unat_of_nat)
    have le2: "unat (length_buf (code c2)) \<le> P + K * length ?pre"
      using len2 lcode k(2) by simp
    have "length ?pre \<le> ip + 1 + n" using lpre by simp
    from "1.IH" [OF True b refl fr small room l mh2 this le2]
    have ih: "maps_hold c' (?pre @ compile_trace body codeLength (ip + 1 + n) c2)"
      "\<forall>e \<in> set (compile_trace body codeLength (ip + 1 + n) c2).
          ip + 1 + n \<le> fst e \<and> fst e < codeLength
          \<and> unat (length_buf (code c2)) \<le> unat (snd e)
          \<and> unat (snd e) < unat (length_buf (code c'))"
      "sorted_wrt (<) (map fst (compile_trace body codeLength (ip + 1 + n) c2))"
      "sorted_wrt (<) (map (\<lambda>e. unat (snd e)) (compile_trace body codeLength (ip + 1 + n) c2))"
      "unat (length_buf (code c2)) \<le> unat (length_buf (code c'))"
      by simp_all
    have "maps_hold c' (pre @ compile_trace body codeLength ip c)"
      using ih(1) by (simp add: tr)
    moreover have "\<forall>e \<in> set (compile_trace body codeLength ip c).
                    ip \<le> fst e \<and> fst e < codeLength
                    \<and> unat ?len \<le> unat (snd e)
                    \<and> unat (snd e) < unat (length_buf (code c'))"
      using ih(2) ih(5) len2 k(1) True by (auto simp: tr)
    moreover have "sorted_wrt (<) (map fst (compile_trace body codeLength ip c))"
      using ih(2) ih(3) by (auto simp: tr)
    moreover have "sorted_wrt (<) (map (\<lambda>e. unat (snd e)) (compile_trace body codeLength ip c))"
      using ih(2) ih(4) len2 k(1) by (auto simp: tr)
    moreover have "unat ?len \<le> unat (length_buf (code c'))"
      using ih(5) len2 by simp
    ultimately show ?thesis by blast
  qed
qed

lemma advances_trans: "advances j c c1 \<Longrightarrow> advances k c1 c2 \<Longrightarrow> advances (j + k) c c2"
  by (simp add: advances_def)

lemma advances_code_append: "advances 1 c (code_append v c)"
  by (simp add: advances_def code_append_def length_buf_def position_append)

lemma advances_rex: "advances (if BytesPerWord a = 8 then 1 else 0) c (rex a c)"
  using advances_code_append [of c "0x48"] by (simp add: rex_def) (simp add: advances_def)

lemma advances_pop_reg: "advances 1 c (pop_reg r c)"
  unfolding pop_reg_def by (rule advances_code_append)

lemma advances_push_reg: "advances 1 c (push_reg r c)"
  unfolding push_reg_def by (rule advances_code_append)

lemma advances_ret: "advances 1 c (ret c)"
  unfolding ret_def by (rule advances_code_append)

lemma advances_push_imm: "advances (if isByte v then 2 else 5) c (push_imm v c)"
  by (simp add: push_imm_def advances_def code_append_def length_buf_def position_append
        position_append4 Let_def)

lemma advances_mov_reg_reg:
  "advances (if BytesPerWord a = 8 then 3 else 2) c (mov_reg_reg a src dst c)"
  by (simp add: mov_reg_reg_def rex_def advances_def code_append_def length_buf_def position_append)

lemma advances_add_reg_reg:
  "advances (if BytesPerWord a = 8 then 3 else 2) c (add_reg_reg a src dst c)"
  by (simp add: add_reg_reg_def rex_def advances_def code_append_def length_buf_def position_append)

lemma advances_sub_imm_reg:
  "sub_imm_reg a v dst c = Inr c' \<Longrightarrow> advances (if BytesPerWord a = 8 then 4 else 3) c c'"
  by (auto simp: sub_imm_reg_def rex_def advances_def code_append_def length_buf_def
        position_append split: if_splits)

text \<open>The prologue appends between 3 and 8 bytes and leaves the map buffers
  alone.\<close>

lemma compile_prologue_advances:
  assumes "compile_prologue a methodParameterFootprint codeMaxLocals c = Inr c1"
  shows "\<exists>k. 3 \<le> k \<and> k \<le> 8 \<and> advances k c c1"
proof -
  let ?c0 = "mov_reg_reg a rsp rbp (push_reg rbp c)"
  have 0: "advances (1 + (if BytesPerWord a = 8 then 3 else 2)) c ?c0"
    by (rule advances_trans [OF advances_push_reg advances_mov_reg_reg])
  show ?thesis
  proof (cases "codeMaxLocals * of_nat (BytesPerWord a)
                  > methodParameterFootprint * of_nat (BytesPerWord a)")
    case True
    then have "sub_imm_reg a (codeMaxLocals * of_nat (BytesPerWord a)
                   - methodParameterFootprint * of_nat (BytesPerWord a)) rsp ?c0 = Inr c1"
      using assms by (simp add: compile_prologue_def Let_def)
    from advances_trans [OF 0 advances_sub_imm_reg [OF this]]
    have adv: "advances (1 + (if BytesPerWord a = 8 then 3 else 2)
                           + (if BytesPerWord a = 8 then 4 else 3)) c c1" .
    have "3 \<le> 1 + (if BytesPerWord a = 8 then 3 else 2)
                 + (if BytesPerWord a = 8 then 4 else 3 :: nat)"
      "1 + (if BytesPerWord a = 8 then 3 else 2)
         + (if BytesPerWord a = 8 then 4 else 3 :: nat) \<le> 8"
      by simp_all
    with adv show ?thesis by blast
  next
    case False
    then have "c1 = ?c0"
      using assms by (simp add: compile_prologue_def Let_def)
    with 0 have adv: "advances (1 + (if BytesPerWord a = 8 then 3 else 2)) c c1"
      by (simp only:)
    have "3 \<le> 1 + (if BytesPerWord a = 8 then 3 else 2 :: nat)"
      "1 + (if BytesPerWord a = 8 then 3 else 2 :: nat) \<le> 8"
      by simp_all
    with adv show ?thesis by blast
  qed
qed

lemma advances_bounded:
  "advances k c c' \<Longrightarrow> 1 \<le> k \<Longrightarrow> k \<le> 6 \<Longrightarrow> \<exists>k. 1 \<le> k \<and> k \<le> 6 \<and> advances k c c'"
  by blast

lemma switch_case_advances:
  assumes "switch_case a decode codeBody ip c = Inr (n, c')"
  shows "\<exists>k. 1 \<le> k \<and> k \<le> 6 \<and> advances k c c'"
proof (cases "decode (codeBody ! ip)")
  case iconst_0
  with assms have "c' = push_imm 0 c" by (simp add: switch_case_def)
  then show ?thesis by (simp only:) (rule advances_bounded [OF advances_push_imm], simp_all)
next
  case iconst_1
  with assms have "c' = push_imm 1 c" by (simp add: switch_case_def)
  then show ?thesis by (simp only:) (rule advances_bounded [OF advances_push_imm], simp_all)
next
  case bipush
  with assms have "c' = push_imm (scast (codeBody ! (ip + 1))) c"
    by (simp add: switch_case_def split: if_splits)
  then show ?thesis by (simp only:) (rule advances_bounded [OF advances_push_imm], simp_all)
next
  case iadd
  with assms have "c' = push_reg rcx (add_reg_reg a rax rcx (pop_reg rcx (pop_reg rax c)))"
    by (simp add: switch_case_def)
  then show ?thesis
    by (simp only:)
       (rule advances_bounded [OF advances_trans [OF advances_trans [OF advances_trans
          [OF advances_pop_reg advances_pop_reg] advances_add_reg_reg] advances_push_reg]],
        simp_all)
next
  case ireturn
  with assms have "c' = ret (pop_reg rbp (mov_reg_reg a rbp rsp (pop_reg rax c)))"
    by (simp add: switch_case_def)
  then show ?thesis
    by (simp only:)
       (rule advances_bounded [OF advances_trans [OF advances_trans [OF advances_trans
          [OF advances_pop_reg advances_mov_reg_reg] advances_pop_reg] advances_ret]],
        simp_all)
next
  case return'
  with assms have "c' = ret (pop_reg rbp (mov_reg_reg a rbp rsp c))"
    by (simp add: switch_case_def)
  then show ?thesis
    by (simp only:)
       (rule advances_bounded [OF advances_trans [OF advances_trans
          [OF advances_mov_reg_reg advances_pop_reg] advances_ret]], simp_all)
next
  case other_opcode
  with assms show ?thesis by (simp add: switch_case_def)
qed

lemma template_frame_switch_case: "template_frame 6 (switch_case a decode codeBody)"
  unfolding template_frame_def
proof (intro allI impI)
  fix ip c n c'
  assume "switch_case a decode codeBody ip c = Inr (n, c')"
  then obtain k where "1 \<le> k" "k \<le> 6" "advances k c c'"
    using switch_case_advances by blast
  then show "javaIPs c' = javaIPs c \<and> machineIPs c' = machineIPs c
        \<and> (\<exists>k. 1 \<le> k \<and> k \<le> 6 \<and> length_buf (code c') = length_buf (code c) + of_nat k)"
    unfolding advances_def by blast
qed

text \<open>
  C8.  Let the rest of the loop body leave the two map buffers alone and append
  at least one and at most \<open>K\<close> bytes of code per instruction, let the bytecode
  be at most \<open>2^16\<close> bytes long (the map stores an ip in 16 bits) and the
  prologue's 8 bytes plus \<open>K\<close> times its length below \<open>2^32\<close>.  When \<open>compile\<close>,
  run on a new compiler, reaches the end of its main loop without a pending
  exception, an abort or a failed assertion, then: the bytecode ips it has
  recorded are strictly increasing and so are the machine offsets recorded
  with them; the two buffers hold exactly the recorded pairs; and for every
  recorded pair the ip is one of the method's, \<open>machineIpForJavaIp\<close> returns, by
  its binary search, the machine offset recorded for that ip, and that offset
  lies after the prologue (at least 3) and strictly before the end of the
  emitted code.
\<close>

theorem machineIpForJavaIp_finds_recorded:
  assumes "template_frame K body" and "codeLength \<le> 2 ^ 16" and "8 + K * codeLength < 2 ^ 32"
    and "compile a body methodParameterFootprint codeMaxLocals codeLength (Compiler_new sys)
           = Inr c"
  shows "sorted_wrt (<) (map fst
           (compile_pairs a body methodParameterFootprint codeMaxLocals codeLength
              (Compiler_new sys)))
         \<and> sorted_wrt (<) (map snd
             (compile_pairs a body methodParameterFootprint codeMaxLocals codeLength
                (Compiler_new sys)))
         \<and> copyTo (javaIPs c)
             = javaIPs_image
                 (compile_pairs a body methodParameterFootprint codeMaxLocals codeLength
                    (Compiler_new sys))
         \<and> copyTo (machineIPs c)
             = machineIPs_image
                 (compile_pairs a body methodParameterFootprint codeMaxLocals codeLength
                    (Compiler_new sys))
         \<and> (\<forall>e \<in> set (compile_pairs a body methodParameterFootprint codeMaxLocals codeLength
                          (Compiler_new sys)).
               fst e < codeLength
               \<and> machineIpForJavaIp c (of_nat (fst e)) = Inr (snd e)
               \<and> 3 \<le> snd e \<and> snd e < length_buf (code c))"
proof -
  let ?tr = "compile_pairs a body methodParameterFootprint codeMaxLocals codeLength
               (Compiler_new sys)"
  from assms(4) obtain c1
    where pro: "compile_prologue a methodParameterFootprint codeMaxLocals (Compiler_new sys)
                  = Inr c1"
      and loop: "compile_loop body codeLength 0 c1 = Inr c"
    by (auto simp: compile_def split: sum.splits)
  have tr: "?tr = compile_trace body codeLength 0 c1"
    by (simp add: compile_pairs_def pro)
  from compile_prologue_advances [OF pro] obtain k
    where k: "3 \<le> k" "k \<le> 8" "advances k (Compiler_new sys) c1"
    by blast
  have "maps_hold (Compiler_new sys) []"
    by (simp add: maps_hold_def Compiler_new_def buffer_ok_new copyTo_new
          javaIPs_image_def machineIPs_image_def)
  then have start: "maps_hold c1 []"
    using k(3) by (simp add: maps_hold_def advances_def)
  have "length_buf (code c1) = of_nat k"
    using k(3) by (simp add: advances_def length_buf_def Compiler_new_def Buffer_new_def)
  then have len1: "unat (length_buf (code c1)) = k"
    using k(2) by (simp add: unat_of_nat)
  then have zero: "unat (length_buf (code c1)) \<le> 8 + K * length ([] :: (nat \<times> 32 word) list)"
    using k(2) by simp
  from compile_loop_maps [OF assms(1-3) loop start _ zero]
  have mh: "maps_hold c ?tr"
    and ent: "\<forall>e \<in> set ?tr. fst e < codeLength \<and> k \<le> unat (snd e)
                \<and> unat (snd e) < unat (length_buf (code c))"
    and inc: "sorted_wrt (<) (map fst ?tr)"
    and incm: "sorted_wrt (<) (map (\<lambda>e. unat (snd e)) ?tr)"
    by (simp_all add: tr len1)
  have incs: "sorted_wrt (<) (map snd ?tr)"
    using incm by (simp add: sorted_wrt_map word_less_nat_alt)
  have small: "\<forall>e \<in> set ?tr. fst e < 2 ^ 16"
    using ent assms(2) by auto
  have top: "unat (length_buf (javaIPs c)) div 2 = length ?tr"
    using mh length_copyTo [of "javaIPs c"]
    by (simp add: maps_hold_def length_buf_def length_javaIPs_image)
  have "\<forall>e \<in> set ?tr. fst e < codeLength
               \<and> machineIpForJavaIp c (of_nat (fst e)) = Inr (snd e)
               \<and> 3 \<le> snd e \<and> snd e < length_buf (code c)"
  proof
    fix e assume e: "e \<in> set ?tr"
    then obtain i where i: "i < length ?tr" "e = ?tr ! i"
      by (auto simp: in_set_conv_nth)
    have "machineIpForJavaIp_loop c (of_nat (fst (?tr ! i))) 0 (length ?tr) = Inr (snd (?tr ! i))"
      using mh inc small i(1) unfolding maps_hold_def
      by (intro search_finds) simp_all
    then have 1: "machineIpForJavaIp c (of_nat (fst e)) = Inr (snd e)"
      by (simp add: machineIpForJavaIp_def top i(2))
    have 2: "snd e < length_buf (code c)"
      using ent e by (simp add: word_less_nat_alt)
    have "3 \<le> unat (snd e)" using ent e k(1) by fastforce
    then have 3: "3 \<le> snd e"
      by (simp add: word_le_nat_alt)
    have 4: "fst e < codeLength" using ent e by simp
    from 4 1 3 2 show "fst e < codeLength
               \<and> machineIpForJavaIp c (of_nat (fst e)) = Inr (snd e)
               \<and> 3 \<le> snd e \<and> snd e < length_buf (code c)"
      by (intro conjI)
  qed
  with mh inc incs show ?thesis
    by (simp add: maps_hold_def)
qed

lemma demo_prologue:
  "compile_prologue X86_32 0 0 (Compiler_new zero_memory)
     = Inr (mov_reg_reg X86_32 rsp rbp (push_reg rbp (Compiler_new zero_memory)))"
  by (simp add: compile_prologue_def)

lemma demo_runs: "compile X86_32 demo_body 0 0 5 (Compiler_new zero_memory) = Inr demo_compiled"
proof -
  have "\<exists>c. compile X86_32 demo_body 0 0 5 (Compiler_new zero_memory) = Inr c"
    unfolding compile_def demo_prologue
    by (simp add: compile_loop.simps demo_body_def switch_case_def
          demo_decode_def demo_bytecode_def)
  then show ?thesis
    by (auto simp: demo_compiled_def)
qed

lemma demo_trace_pairs:
  "compile_pairs X86_32 demo_body 0 0 5 (Compiler_new zero_memory)
     = [(0, 3), (1, 5), (3, 7), (4, 12)]"
  unfolding compile_pairs_def demo_prologue
  by (simp add: compile_trace.simps demo_body_def
        switch_case_def demo_decode_def
        demo_bytecode_def record_ips_fields length_buf_def push_imm_def isByte_def
        code_append_def position_append push_reg_def pop_reg_def add_reg_reg_def rex_def
        mov_reg_reg_def Compiler_new_def Buffer_new_def)

theorem machineIpForJavaIp_finds_recorded_witness:
  "(5 :: nat) \<le> 2 ^ 16 \<and> 8 + (6 :: nat) * 5 < 2 ^ 32
   \<and> compile X86_32 demo_body 0 0 5 (Compiler_new zero_memory) = Inr demo_compiled
   \<and> compile_pairs X86_32 demo_body 0 0 5 (Compiler_new zero_memory)
       = [(0, 3), (1, 5), (3, 7), (4, 12)]
   \<and> machineIpForJavaIp demo_compiled 0 = Inr 3
   \<and> machineIpForJavaIp demo_compiled 1 = Inr 5
   \<and> machineIpForJavaIp demo_compiled 3 = Inr 7
   \<and> machineIpForJavaIp demo_compiled 4 = Inr 12
   \<and> 12 < length_buf (code demo_compiled)"
proof -
  have f: "template_frame 6 demo_body"
    unfolding demo_body_def by (rule template_frame_switch_case)
  have b: "(5 :: nat) \<le> 2 ^ 16" "8 + (6 :: nat) * 5 < 2 ^ 32" by simp_all
  from machineIpForJavaIp_finds_recorded
         [OF f b demo_runs, THEN conjunct2, THEN conjunct2, THEN conjunct2, THEN conjunct2]
  have "\<forall>e \<in> set [(0, 3), (1, 5), (3, 7), (4 :: nat, 12 :: 32 word)].
          fst e < 5
          \<and> machineIpForJavaIp demo_compiled (of_nat (fst e)) = Inr (snd e)
          \<and> 3 \<le> snd e \<and> snd e < length_buf (code demo_compiled)"
    by (simp only: demo_trace_pairs)
  then show ?thesis
    using b demo_runs demo_trace_pairs by simp
qed

end
